theory Spec2Isabelle
  imports Complex_Main
begin

text \<open>
  The invoicing and payment core of the property-management application: the tables and
  PL/pgSQL functions of the migrations (invoices, invoice_items, payments, the triggers
  \<open>update_invoice_totals\<close>, \<open>update_invoice_status\<close> and \<open>set_invoice_number\<close>, the functions
  \<open>generate_invoice_number\<close>, \<open>void_invoice_item\<close> and \<open>void_invoice\<close>) and the two functions of
  \<open>CreateInvoiceForm.tsx\<close> that create an invoice (\<open>calculateTotals\<close>, \<open>handleSubmit\<close>), as
  functions on an explicit database state.
\<close>

section \<open>Data model\<close>

text \<open>
  The tables of the invoicing migrations, one record per row type and one list per table.
  Identifiers (\<open>uuid\<close>) are natural numbers; a nullable column is an \<open>option\<close>, a text column
  with a \<open>CHECK (col IN (...))\<close> constraint is a datatype of exactly the admitted values.
  PostgreSQL's \<open>numeric\<close> and the client's \<open>number\<close> are both modelled as exact rationals:
  binary floating-point rounding of the client is outside the model.
  The informational foreign keys of an invoice (property, unit, tenant), the timestamps and
  row-level security are left out: no modelled function reads them.
\<close>

type_synonym uuid = nat

datatype invoice_status = draft | sent | paid | partially_paid | overdue | cancelled
datatype item_type = rent | utility | deposit | tax | other
datatype item_status = active | void
datatype payment_status = confirmed
datatype payment_type = full | partial
datatype payment_mode = mpesa | cash | bank | cheque
datatype source_status = pending | saved | invoiced

record invoice =
  inv_id :: uuid
  owner_id :: uuid
  invoice_number :: "string option"
  subtotal :: rat
  tax_amount :: rat
  total_amount :: rat
  inv_status :: invoice_status
  due_date :: string

record invoice_item =
  item_id :: uuid
  item_invoice_id :: "uuid option"
  item_kind :: item_type
  description :: string
  amount :: rat
  reference_id :: "uuid option"
  item_state :: item_status

record payment =
  pay_id :: uuid
  pay_invoice_id :: "uuid option"
  pay_amount :: rat
  pay_type :: payment_type
  pay_mode :: payment_mode
  pay_status :: payment_status

text \<open>A utility reading or a deposit, as far as invoicing sees it.\<close>

record billable =
  src_id :: uuid
  src_amount :: rat
  src_status :: source_status

record db =
  invoices :: "invoice list"
  invoice_items :: "invoice_item list"
  payments :: "payment list"
  utilities :: "billable list"
  deposits :: "billable list"
  invoice_number_seq :: nat

datatype error =
    Check_violation string
  | Unique_violation string
  | Foreign_key_violation string
  | Not_null_violation string
  | Integer_out_of_range
  | Ambiguous_column string
  | Request_failed

text \<open>
  The outcome of one SQL statement. \<open>Rollback e d\<close>: the statement raised \<open>e\<close> and was rolled
  back; \<open>d\<close> is the database afterwards, equal to the one before except for the sequence,
  whose \<open>nextval\<close> is never undone.
\<close>

datatype result = Ok db | Rollback error db

section \<open>SQL helpers\<close>

text \<open>\<open>SUM\<close> over no rows is NULL; \<open>COALESCE\<close> takes the first argument that is not NULL.\<close>

definition sql_sum :: "rat list \<Rightarrow> rat option" where
  "sql_sum xs = (if xs = [] then None else Some (sum_list xs))"

definition coalesce :: "'a option \<Rightarrow> 'a option \<Rightarrow> 'a option" where
  "coalesce a b = (case a of Some x \<Rightarrow> Some x | None \<Rightarrow> b)"

definition coalesce_value :: "'a option \<Rightarrow> 'a \<Rightarrow> 'a" where
  "coalesce_value a d = (case a of Some x \<Rightarrow> x | None \<Rightarrow> d)"

text \<open>\<open>WHERE id = k\<close> on invoices: no row matches when \<open>k\<close> is NULL.\<close>

definition id_is :: "uuid option \<Rightarrow> invoice \<Rightarrow> bool" where
  "id_is k r = (k = Some (inv_id r))"

text \<open>\<open>UPDATE invoices SET ... WHERE ...\<close>: every matching row is rewritten in place.\<close>

definition update_invoices :: "(invoice \<Rightarrow> bool) \<Rightarrow> (invoice \<Rightarrow> invoice) \<Rightarrow> db \<Rightarrow> db" where
  "update_invoices P f d = d\<lparr>invoices := map (\<lambda>r. if P r then f r else r) (invoices d)\<rparr>"

text \<open>
  \<open>SELECT amount FROM invoice_items WHERE invoice_id = k AND status = 'active'\<close>;
  the comparison with a NULL \<open>k\<close> selects nothing.
\<close>

definition active_amounts :: "invoice_item list \<Rightarrow> uuid option \<Rightarrow> rat list" where
  "active_amounts items k =
     map amount (filter (\<lambda>it. k \<noteq> None \<and> item_invoice_id it = k \<and> item_state it = active) items)"

section \<open>Totals recomputation: the trigger \<open>update_invoice_totals\<close>\<close>

datatype tg_op = INSERT | UPDATE | DELETE

text \<open>\<open>NEW.invoice_id\<close> and \<open>OLD.invoice_id\<close>: NULL when the row variable itself is NULL.\<close>

definition row_invoice_id :: "invoice_item option \<Rightarrow> uuid option" where
  "row_invoice_id r = (case r of None \<Rightarrow> None | Some it \<Rightarrow> item_invoice_id it)"

definition update_invoice_totals :: "tg_op \<Rightarrow> invoice_item option \<Rightarrow> invoice_item option \<Rightarrow> db \<Rightarrow> db" where
  "update_invoice_totals op new old d =
     (let d1 =
        (if op = INSERT \<or> op = UPDATE then
           update_invoices (id_is (row_invoice_id new))
             (\<lambda>r. r\<lparr>subtotal :=
                coalesce_value (sql_sum (active_amounts (invoice_items d) (row_invoice_id new))) 0\<rparr>) d
         else if op = DELETE then
           update_invoices (id_is (row_invoice_id old))
             (\<lambda>r. r\<lparr>subtotal :=
                coalesce_value (sql_sum (active_amounts (invoice_items d) (row_invoice_id old))) 0\<rparr>) d
         else d)
      in update_invoices (id_is (coalesce (row_invoice_id new) (row_invoice_id old)))
           (\<lambda>r. r\<lparr>total_amount := subtotal r + tax_amount r\<rparr>) d1)"

text \<open>
  The rows the trigger rewrites are tested against the CHECK constraints of invoices; in a
  database that satisfies its constraints the test cannot fail (\<open>trigger_keeps_checks\<close>
  below), and the trigger is modelled without it.

  The trigger is \<open>AFTER INSERT OR UPDATE OR DELETE ... FOR EACH ROW\<close>: its calls are queued
  while the statement changes the table and run, one per affected row, when the statement
  has changed all its rows. Each call is given the pair \<open>(NEW, OLD)\<close>.
\<close>

definition fire_item_triggers ::
  "tg_op \<Rightarrow> (invoice_item option \<times> invoice_item option) list \<Rightarrow> db \<Rightarrow> db" where
  "fire_item_triggers op rows d = fold (\<lambda>(new, old). update_invoice_totals op new old) rows d"

section \<open>Statements on \<open>invoice_items\<close>\<close>

text \<open>
  \<open>INSERT INTO invoice_items VALUES rows\<close> (one statement, any number of rows). The
  statement is rejected as a whole when a row breaks \<open>CHECK (amount >= 0)\<close>, the primary
  key, or the foreign key to invoices.
\<close>

definition invoice_exists :: "db \<Rightarrow> uuid option \<Rightarrow> bool" where
  "invoice_exists d k = (case k of None \<Rightarrow> True | Some i \<Rightarrow> i \<in> set (map inv_id (invoices d)))"

definition insert_invoice_items :: "invoice_item list \<Rightarrow> db \<Rightarrow> result" where
  "insert_invoice_items rows d =
     (if list_ex (\<lambda>r. amount r < 0) rows then
        Rollback (Check_violation ''invoice_items_amount_check'') d
      else if \<not> distinct (map item_id (invoice_items d @ rows)) then
        Rollback (Unique_violation ''invoice_items_pkey'') d
      else if list_ex (\<lambda>r. \<not> invoice_exists d (item_invoice_id r)) rows then
        Rollback (Foreign_key_violation ''invoice_items_invoice_id_fkey'') d
      else
        Ok (fire_item_triggers INSERT (map (\<lambda>r. (Some r, None)) rows)
              (d\<lparr>invoice_items := invoice_items d @ rows\<rparr>)))"

text \<open>
  \<open>UPDATE invoice_items SET status = st WHERE P\<close>. The new status is one of the two the
  CHECK admits, so the statement cannot fail.
\<close>

definition update_item_status :: "(invoice_item \<Rightarrow> bool) \<Rightarrow> item_status \<Rightarrow> db \<Rightarrow> db" where
  "update_item_status P st d =
     fire_item_triggers UPDATE
       (map (\<lambda>r. (Some (r\<lparr>item_state := st\<rparr>), Some r)) (filter P (invoice_items d)))
       (d\<lparr>invoice_items := map (\<lambda>r. if P r then r\<lparr>item_state := st\<rparr> else r) (invoice_items d)\<rparr>)"

text \<open>\<open>void_invoice_item(item_id)\<close>: \<open>UPDATE invoice_items SET status = 'void' WHERE id = item_id\<close>.\<close>

definition void_invoice_item :: "uuid \<Rightarrow> db \<Rightarrow> db" where
  "void_invoice_item iid d = update_item_status (\<lambda>r. item_id r = iid) void d"

text \<open>\<open>DELETE FROM invoice_items WHERE id = iid\<close>.\<close>

definition delete_invoice_item :: "uuid \<Rightarrow> db \<Rightarrow> db" where
  "delete_invoice_item iid d =
     fire_item_triggers DELETE
       (map (\<lambda>r. (None, Some r)) (filter (\<lambda>r. item_id r = iid) (invoice_items d)))
       (d\<lparr>invoice_items := filter (\<lambda>r. item_id r \<noteq> iid) (invoice_items d)\<rparr>)"

text \<open>The item mutations of one invoice's life, and a run of them, each its own statement.\<close>

datatype item_event =
    Insert_items "invoice_item list"
  | Set_status uuid item_status
  | Delete_item uuid

fun exec_item_event :: "db \<Rightarrow> item_event \<Rightarrow> result" where
  "exec_item_event d (Insert_items rows) = insert_invoice_items rows d"
| "exec_item_event d (Set_status iid st) = Ok (update_item_status (\<lambda>r. item_id r = iid) st d)"
| "exec_item_event d (Delete_item iid) = Ok (delete_invoice_item iid d)"

definition db_after :: "result \<Rightarrow> db" where
  "db_after r = (case r of Ok d \<Rightarrow> d | Rollback e d \<Rightarrow> d)"

definition succeeded :: "result \<Rightarrow> bool" where
  "succeeded r = (case r of Ok d \<Rightarrow> True | Rollback e d \<Rightarrow> False)"

fun run_item_events :: "db \<Rightarrow> item_event list \<Rightarrow> db" where
  "run_item_events d [] = d"
| "run_item_events d (e # es) = run_item_events (db_after (exec_item_event d e)) es"

text \<open>The invoices whose items a statement changed: the parents of the rows it affected.\<close>

definition parents :: "invoice_item list \<Rightarrow> uuid set" where
  "parents rows = set (map the (filter (\<lambda>k. k \<noteq> None) (map item_invoice_id rows)))"

fun touched_by :: "db \<Rightarrow> item_event \<Rightarrow> uuid set" where
  "touched_by d (Insert_items rows) =
     (if succeeded (insert_invoice_items rows d) then parents rows else {})"
| "touched_by d (Set_status iid st) = parents (filter (\<lambda>r. item_id r = iid) (invoice_items d))"
| "touched_by d (Delete_item iid) = parents (filter (\<lambda>r. item_id r = iid) (invoice_items d))"

fun touched :: "db \<Rightarrow> item_event list \<Rightarrow> uuid set" where
  "touched d [] = {}"
| "touched d (e # es) = touched_by d e \<union> touched (db_after (exec_item_event d e)) es"

text \<open>
  The invariant of an invoice's derived columns, in the words of the data model: the
  subtotal is the sum of the amounts of the invoice's active items, and the total is
  subtotal plus tax.
\<close>

definition active_item_sum :: "db \<Rightarrow> uuid \<Rightarrow> rat" where
  "active_item_sum d i =
     (\<Sum>it\<leftarrow>invoice_items d. if item_invoice_id it = Some i \<and> item_state it = active then amount it else 0)"

definition totals_ok :: "db \<Rightarrow> uuid \<Rightarrow> bool" where
  "totals_ok d i =
     list_all (\<lambda>r. inv_id r \<noteq> i \<or>
        (subtotal r = active_item_sum d i \<and> total_amount r = subtotal r + tax_amount r)) (invoices d)"


section \<open>Payments: the trigger \<open>update_invoice_status\<close>\<close>

text \<open>
  \<open>SELECT total_amount INTO invoice_total FROM invoices WHERE id = k\<close>: the first matching
  row, NULL when there is none.
\<close>

definition select_total_amount :: "db \<Rightarrow> uuid option \<Rightarrow> rat option" where
  "select_total_amount d k =
     (case filter (id_is k) (invoices d) of [] \<Rightarrow> None | r # rs \<Rightarrow> Some (total_amount r))"

definition confirmed_amounts :: "payment list \<Rightarrow> uuid option \<Rightarrow> rat list" where
  "confirmed_amounts ps k =
     map pay_amount (filter (\<lambda>p. k \<noteq> None \<and> pay_invoice_id p = k \<and> pay_status p = confirmed) ps)"

text \<open>\<open>IF a >= b\<close> with a NULL \<open>b\<close>: the comparison is NULL and the branch is not taken.\<close>

definition sql_ge :: "rat \<Rightarrow> rat option \<Rightarrow> bool" where
  "sql_ge a b = (case b of None \<Rightarrow> False | Some y \<Rightarrow> y \<le> a)"

definition update_invoice_status :: "payment \<Rightarrow> db \<Rightarrow> db" where
  "update_invoice_status new d =
     (if pay_invoice_id new \<noteq> None then
        (let invoice_total = select_total_amount d (pay_invoice_id new);
             total_paid = coalesce_value (sql_sum (confirmed_amounts (payments d) (pay_invoice_id new))) 0
         in if sql_ge total_paid invoice_total then
              update_invoices (id_is (pay_invoice_id new)) (\<lambda>r. r\<lparr>inv_status := paid\<rparr>) d
            else if total_paid > 0 then
              update_invoices (id_is (pay_invoice_id new)) (\<lambda>r. r\<lparr>inv_status := partially_paid\<rparr>) d
            else d)
      else d)"

text \<open>
  The statements that fire the trigger (\<open>AFTER INSERT OR UPDATE OF amount, status ... FOR EACH
  ROW\<close>): the insert of one payment, and \<open>UPDATE payments SET amount = a, status = s WHERE
  id = pid\<close>. Both are checked against \<open>CHECK (amount > 0)\<close>; the insert also against the
  primary key and the foreign key to invoices.
\<close>

datatype payment_event =
    Insert_payment payment
  | Update_payment uuid rat payment_status

definition insert_payment :: "payment \<Rightarrow> db \<Rightarrow> result" where
  "insert_payment p d =
     (if \<not> 0 < pay_amount p then Rollback (Check_violation ''payments_amount_check'') d
      else if pay_id p \<in> set (map pay_id (payments d)) then
        Rollback (Unique_violation ''payments_pkey'') d
      else if \<not> invoice_exists d (pay_invoice_id p) then
        Rollback (Foreign_key_violation ''payments_invoice_id_fkey'') d
      else Ok (update_invoice_status p (d\<lparr>payments := payments d @ [p]\<rparr>)))"

definition update_payment :: "uuid \<Rightarrow> rat \<Rightarrow> payment_status \<Rightarrow> db \<Rightarrow> result" where
  "update_payment pid a s d =
     (let hit = filter (\<lambda>p. pay_id p = pid) (payments d);
          set_cols = (\<lambda>p. p\<lparr>pay_amount := a, pay_status := s\<rparr>)
      in if hit \<noteq> [] \<and> \<not> 0 < a then Rollback (Check_violation ''payments_amount_check'') d
         else Ok (fold update_invoice_status (map set_cols hit)
                    (d\<lparr>payments := map (\<lambda>p. if pay_id p = pid then set_cols p else p) (payments d)\<rparr>)))"

fun exec_payment_event :: "db \<Rightarrow> payment_event \<Rightarrow> result" where
  "exec_payment_event d (Insert_payment p) = insert_payment p d"
| "exec_payment_event d (Update_payment pid a s) = update_payment pid a s d"

text \<open>The rows the trigger is called with, as \<open>NEW\<close>, by an event.\<close>

fun new_rows :: "db \<Rightarrow> payment_event \<Rightarrow> payment list" where
  "new_rows d (Insert_payment p) = [p]"
| "new_rows d (Update_payment pid a s) =
     map (\<lambda>p. p\<lparr>pay_amount := a, pay_status := s\<rparr>) (filter (\<lambda>p. pay_id p = pid) (payments d))"

text \<open>The sum of the confirmed payments recorded against an invoice, in the spec's words.\<close>

definition total_paid :: "db \<Rightarrow> uuid \<Rightarrow> rat" where
  "total_paid d i =
     (\<Sum>p\<leftarrow>payments d. if pay_invoice_id p = Some i \<and> pay_status p = confirmed then pay_amount p else 0)"

definition with_status :: "uuid \<Rightarrow> invoice_status \<Rightarrow> invoice list \<Rightarrow> invoice list" where
  "with_status i s rs = map (\<lambda>r. if inv_id r = i then r\<lparr>inv_status := s\<rparr> else r) rs"

section \<open>Invoice numbers\<close>

text \<open>The decimal text of a non-negative integer (\<open>next_val::text\<close>).\<close>

definition digit_char :: "nat \<Rightarrow> char" where
  "digit_char n = ''0123456789'' ! n"

function show_nat :: "nat \<Rightarrow> string" where
  "show_nat n = (if n < 10 then [digit_char n] else show_nat (n div 10) @ [digit_char (n mod 10)])"
  by pat_completeness auto
termination
  by (relation "measure (\<lambda>n. n)") auto

declare show_nat.simps [simp del]

text \<open>
  PostgreSQL's \<open>lpad(string, length, fill)\<close> with a one-character fill: the string is
  extended on the left to \<open>length\<close> characters, and a string that is already longer is
  truncated on the right to \<open>length\<close> characters.
\<close>

definition lpad :: "string \<Rightarrow> nat \<Rightarrow> char \<Rightarrow> string" where
  "lpad s n fill = (if n \<le> length s then take n s else replicate (n - length s) fill @ s)"

text \<open>
  \<open>nextval('invoice_number_seq')\<close>: the sequence starts at 1 and goes up by 1; the field
  \<open>invoice_number_seq\<close> holds the last value handed out (0 before the first call).
\<close>

definition nextval :: "db \<Rightarrow> nat \<times> db" where
  "nextval d = (Suc (invoice_number_seq d), d\<lparr>invoice_number_seq := Suc (invoice_number_seq d)\<rparr>)"

text \<open>
  \<open>generate_invoice_number()\<close>. \<open>today\<close> is \<open>to_char(now(), 'YYYYMMDD')\<close>. The sequence
  value is stored in a variable of type \<open>integer\<close>, which holds at most 2147483647.
\<close>

definition generate_invoice_number :: "string \<Rightarrow> db \<Rightarrow> (error + string) \<times> db" where
  "generate_invoice_number today d =
     (let (next_val, d') = nextval d in
      if 2147483647 < next_val then (Inl Integer_out_of_range, d')
      else (Inr (''INV-'' @ today @ ''-'' @ lpad (show_nat next_val) 4 (CHR ''0'')), d'))"

text \<open>The \<open>BEFORE INSERT\<close> trigger \<open>set_invoice_number\<close>.\<close>

definition set_invoice_number :: "string \<Rightarrow> invoice \<Rightarrow> db \<Rightarrow> (error + invoice) \<times> db" where
  "set_invoice_number today new d =
     (if invoice_number new = None then
        (case generate_invoice_number today d of
           (Inl e, d') \<Rightarrow> (Inl e, d')
         | (Inr n, d') \<Rightarrow> (Inr (new\<lparr>invoice_number := Some n\<rparr>), d'))
      else (Inr new, d))"

text \<open>
  \<open>INSERT INTO invoices\<close> of one row: the \<open>BEFORE INSERT\<close> trigger, then NOT NULL and the
  CHECK constraints, then the primary key and \<open>invoice_number UNIQUE\<close>.
\<close>

definition insert_invoice :: "string \<Rightarrow> invoice \<Rightarrow> db \<Rightarrow> result" where
  "insert_invoice today new d =
     (case set_invoice_number today new d of
        (Inl e, d') \<Rightarrow> Rollback e d'
      | (Inr row, d') \<Rightarrow>
          if invoice_number row = None then Rollback (Not_null_violation ''invoice_number'') d'
          else if subtotal row < 0 then Rollback (Check_violation ''invoices_subtotal_check'') d'
          else if tax_amount row < 0 then Rollback (Check_violation ''invoices_tax_amount_check'') d'
          else if total_amount row < 0 then Rollback (Check_violation ''invoices_total_amount_check'') d'
          else if inv_id row \<in> set (map inv_id (invoices d')) then
            Rollback (Unique_violation ''invoices_pkey'') d'
          else if invoice_number row \<in> set (map invoice_number (invoices d')) then
            Rollback (Unique_violation ''invoices_invoice_number_key'') d'
          else Ok (d'\<lparr>invoices := invoices d' @ [row]\<rparr>))"

section \<open>Voiding a whole invoice\<close>

text \<open>
  \<open>void_invoice(invoice_id uuid)\<close> is a PL/pgSQL function whose parameter has the name of
  the column \<open>invoice_items.invoice_id\<close>, and whose first statement is
  \<open>UPDATE invoice_items SET status = 'void' WHERE invoice_id = $1\<close>. How PL/pgSQL reads the
  name \<open>invoice_id\<close> in that \<open>WHERE\<close> clause is set by \<open>plpgsql.variable_conflict\<close>
  (PostgreSQL manual, PL/pgSQL, Variable Substitution): with \<open>error\<close>, the default, which
  neither the migrations nor the function body change, a name that is both a variable of the
  function and a column of the statement's table is rejected when the statement is first
  run; with \<open>use_column\<close> it is the column; with \<open>use_variable\<close> it is the parameter, so the
  condition compares the argument with itself and holds for every row.
  The second statement, \<open>UPDATE invoices SET ... WHERE id = $1\<close>, has no such name.
\<close>

datatype variable_conflict = conflict_error | use_variable | use_column

definition cancel :: "invoice \<Rightarrow> invoice" where
  "cancel r = r\<lparr>inv_status := cancelled, subtotal := 0, tax_amount := 0, total_amount := 0\<rparr>"

definition void_invoice :: "variable_conflict \<Rightarrow> uuid \<Rightarrow> db \<Rightarrow> result" where
  "void_invoice vc arg d =
     (case vc of
        conflict_error \<Rightarrow> Rollback (Ambiguous_column ''invoice_id'') d
      | use_column \<Rightarrow>
          Ok (update_invoices (id_is (Some arg)) cancel
                (update_item_status (\<lambda>r. item_invoice_id r = Some arg) void d))
      | use_variable \<Rightarrow>
          Ok (update_invoices (id_is (Some arg)) cancel
                (update_item_status (\<lambda>r. True) void d)))"


section \<open>Creating an invoice: \<open>CreateInvoiceForm\<close>\<close>

text \<open>
  The state of the form that \<open>calculateTotals\<close> and \<open>handleSubmit\<close> read. A selection that
  the component holds as a string is an \<open>option\<close> here, the empty string being \<open>None\<close>;
  \<open>selectedTenant\<close> is the tenant's id, or \<open>None\<close> for \<open>null\<close>.
\<close>

record item_draft =
  d_type :: item_type
  d_description :: string
  d_amount :: rat
  d_reference_id :: "uuid option"

record tax_row =
  tax_id :: uuid
  tax_name :: string
  percentage :: rat

record form_state =
  selectedPropertyId :: "uuid option"
  selectedUnitId :: "uuid option"
  selectedTenant :: "uuid option"
  invoiceItems :: "item_draft list"
  taxes :: "tax_row list"
  selectedTaxId :: "uuid option"
  applyTax :: bool
  dueDate :: string

record totals =
  t_subtotal :: rat
  taxAmount :: rat
  total :: rat

definition calculateTotals :: "form_state \<Rightarrow> totals" where
  "calculateTotals st =
     (let sub = foldl (\<lambda>sum item. sum + d_amount item) 0 (invoiceItems st) in
      if \<not> applyTax st \<or> selectedTaxId st = None then
        \<lparr>t_subtotal = sub, taxAmount = 0, total = sub\<rparr>
      else
        (case find (\<lambda>t. Some (tax_id t) = selectedTaxId st) (taxes st) of
           None \<Rightarrow> \<lparr>t_subtotal = sub, taxAmount = 0, total = sub\<rparr>
         | Some selectedTax \<Rightarrow>
             (let tx = (sub * percentage selectedTax) / 100
              in \<lparr>t_subtotal = sub, taxAmount = tx, total = sub + tx\<rparr>)))"

text \<open>
  What \<open>handleSubmit\<close> takes from outside the form and the database: the signed-in user, the
  server's date, the identifiers \<open>gen_random_uuid()\<close> draws for the new rows, and, for each
  of the four requests, whether it fails without the server running its statement (network,
  session, row-level security, a due date that is not a date). A request that fails so
  returns an error object, as one does whose statement the database rejects.
\<close>

datatype auth = User_error | No_user | User uuid

record submit_env =
  auth_user :: auth
  today :: string
  new_invoice_id :: uuid
  new_item_id :: "nat \<Rightarrow> uuid"
  invoice_request_fails :: bool
  items_request_fails :: bool
  utilities_request_fails :: bool
  deposits_request_fails :: bool

datatype submit_outcome = Created | Validation_alert string | Failure_alert

definition request :: "bool \<Rightarrow> (db \<Rightarrow> result) \<Rightarrow> db \<Rightarrow> result" where
  "request fails stmt d = (if fails then Rollback Request_failed d else stmt d)"

text \<open>\<open>UPDATE utilities SET status = 'invoiced' WHERE id IN (ids)\<close>, and the same on deposits.\<close>

definition mark_invoiced :: "uuid option list \<Rightarrow> billable list \<Rightarrow> billable list" where
  "mark_invoiced ids rows =
     map (\<lambda>u. if Some (src_id u) \<in> set ids then u\<lparr>src_status := invoiced\<rparr> else u) rows"

definition update_utilities :: "uuid option list \<Rightarrow> db \<Rightarrow> result" where
  "update_utilities ids d = Ok (d\<lparr>utilities := mark_invoiced ids (utilities d)\<rparr>)"

definition update_deposits :: "uuid option list \<Rightarrow> db \<Rightarrow> result" where
  "update_deposits ids d = Ok (d\<lparr>deposits := mark_invoiced ids (deposits d)\<rparr>)"

definition invoice_row :: "submit_env \<Rightarrow> form_state \<Rightarrow> uuid \<Rightarrow> invoice" where
  "invoice_row env st uid =
     (let t = calculateTotals st in
      \<lparr>inv_id = new_invoice_id env, owner_id = uid, invoice_number = None,
       subtotal = t_subtotal t, tax_amount = taxAmount t, total_amount = total t,
       inv_status = draft, due_date = dueDate st\<rparr>)"

definition invoiceItemsData :: "submit_env \<Rightarrow> form_state \<Rightarrow> invoice_item list" where
  "invoiceItemsData env st =
     map (\<lambda>(n, item).
            \<lparr>item_id = new_item_id env n, item_invoice_id = Some (new_invoice_id env),
             item_kind = d_type item, description = d_description item, amount = d_amount item,
             reference_id = d_reference_id item, item_state = active\<rparr>)
         (enumerate 0 (invoiceItems st))"

definition utilityIds :: "form_state \<Rightarrow> uuid option list" where
  "utilityIds st =
     map d_reference_id
       (filter (\<lambda>item. d_type item = utility \<and> d_reference_id item \<noteq> None) (invoiceItems st))"

definition depositIds :: "form_state \<Rightarrow> uuid option list" where
  "depositIds st =
     map d_reference_id
       (filter (\<lambda>item. d_type item = deposit \<and> d_reference_id item \<noteq> None) (invoiceItems st))"

text \<open>
  \<open>handleSubmit\<close>. A thrown error and both early returns leave the database as the requests
  made so far have left it; nothing is undone. The results of the two status updates are
  awaited and not looked at.
\<close>

definition handleSubmit :: "submit_env \<Rightarrow> form_state \<Rightarrow> db \<Rightarrow> submit_outcome \<times> db" where
  "handleSubmit env st d =
     (case auth_user env of
        User_error \<Rightarrow> (Failure_alert, d)
      | No_user \<Rightarrow> (Failure_alert, d)
      | User uid \<Rightarrow>
          if selectedPropertyId st = None \<or> selectedUnitId st = None \<or> selectedTenant st = None then
            (Validation_alert ''Please select property, unit, and ensure there is a tenant'', d)
          else if length (invoiceItems st) = 0 then
            (Validation_alert ''Please add at least one item to the invoice'', d)
          else
            (case request (invoice_request_fails env)
                    (insert_invoice (today env) (invoice_row env st uid)) d of
               Rollback invoiceError d1 \<Rightarrow> (Failure_alert, d1)
             | Ok d1 \<Rightarrow>
                 (case request (items_request_fails env)
                         (insert_invoice_items (invoiceItemsData env st)) d1 of
                    Rollback itemsError d2 \<Rightarrow> (Failure_alert, d2)
                  | Ok d2 \<Rightarrow>
                      (let d3 = (if length (utilityIds st) > 0 then
                                   db_after (request (utilities_request_fails env)
                                               (update_utilities (utilityIds st)) d2)
                                 else d2);
                           d4 = (if length (depositIds st) > 0 then
                                   db_after (request (deposits_request_fails env)
                                               (update_deposits (depositIds st)) d3)
                                 else d3)
                       in (Created, d4)))))"

section \<open>Notions used in the statements\<close>

text \<open>
  The constraints every stored state satisfies: the CHECKs, the primary keys and the
  foreign keys of an item and of a payment to their invoice.
\<close>

definition constraints_hold :: "db \<Rightarrow> bool" where
  "constraints_hold d =
     (list_all (\<lambda>r. 0 \<le> subtotal r \<and> 0 \<le> tax_amount r \<and> 0 \<le> total_amount r) (invoices d) \<and>
      list_all (\<lambda>it. 0 \<le> amount it \<and> invoice_exists d (item_invoice_id it)) (invoice_items d) \<and>
      list_all (\<lambda>p. 0 < pay_amount p \<and> invoice_exists d (pay_invoice_id p)) (payments d) \<and>
      distinct (map inv_id (invoices d)) \<and>
      distinct (map item_id (invoice_items d)) \<and>
      distinct (map pay_id (payments d)))"




text \<open>The invoice a call works on: the parent of the row the statement changed.\<close>

definition targets :: "tg_op \<Rightarrow> invoice_item option \<Rightarrow> invoice_item option \<Rightarrow> uuid \<Rightarrow> bool" where
  "targets op new old i =
     (case op of DELETE \<Rightarrow> new = None \<and> row_invoice_id old = Some i
      | _ \<Rightarrow> row_invoice_id new = Some i)"

text \<open>The last steps of \<open>handleSubmit\<close>, from the database the item insert has left.\<close>

definition flip_sources :: "submit_env \<Rightarrow> form_state \<Rightarrow> db \<Rightarrow> db" where
  "flip_sources env st d2 =
     (let d3 = (if length (utilityIds st) > 0 then
                  db_after (request (utilities_request_fails env) (update_utilities (utilityIds st)) d2)
                else d2);
          d4 = (if length (depositIds st) > 0 then
                  db_after (request (deposits_request_fails env) (update_deposits (depositIds st)) d3)
                else d3)
      in d4)"


section \<open>Example data\<close>

text \<open>
  The scenario of the specification: an invoice for a rent of 1000 and a water reading of
  150 taken from utility record 40, with a tax of 16 percent.
\<close>

definition ex_invoice :: invoice where
  "ex_invoice = \<lparr>inv_id = 31, owner_id = 7, invoice_number = Some ''INV-20250223-0001'',
     subtotal = 1150, tax_amount = 184, total_amount = 1334, inv_status = draft,
     due_date = ''2025-03-01''\<rparr>"

definition ex_rent :: invoice_item where
  "ex_rent = \<lparr>item_id = 10, item_invoice_id = Some 31, item_kind = rent,
     description = ''Monthly Rent'', amount = 1000, reference_id = None, item_state = active\<rparr>"

definition ex_water :: invoice_item where
  "ex_water = \<lparr>item_id = 11, item_invoice_id = Some 31, item_kind = utility,
     description = ''Water - 2/2025'', amount = 150, reference_id = Some 40, item_state = active\<rparr>"

definition ex_reading :: billable where
  "ex_reading = \<lparr>src_id = 40, src_amount = 150, src_status = saved\<rparr>"

text \<open>The invoice row alone, as it stands between the two inserts of a creation.\<close>

definition ex_db_no_items :: db where
  "ex_db_no_items = \<lparr>invoices = [ex_invoice], invoice_items = [], payments = [],
     utilities = [ex_reading], deposits = [], invoice_number_seq = 1\<rparr>"

text \<open>The invoice with its two items.\<close>

definition ex_db :: db where
  "ex_db = \<lparr>invoices = [ex_invoice], invoice_items = [ex_rent, ex_water], payments = [],
     utilities = [ex_reading], deposits = [], invoice_number_seq = 1\<rparr>"

definition ex_events :: "item_event list" where
  "ex_events = [Insert_items [ex_rent, ex_water], Set_status 11 void, Delete_item 10,
     Set_status 11 active]"

text \<open>An invoice of 1000 without tax, sent to the tenant, and payments against it.\<close>

definition ex_invoice_1000 :: invoice where
  "ex_invoice_1000 = \<lparr>inv_id = 32, owner_id = 7, invoice_number = Some ''INV-20250223-0002'',
     subtotal = 1000, tax_amount = 0, total_amount = 1000, inv_status = sent,
     due_date = ''2025-03-01''\<rparr>"

definition ex_db_1000 :: db where
  "ex_db_1000 = \<lparr>invoices = [ex_invoice_1000], invoice_items = [], payments = [],
     utilities = [], deposits = [], invoice_number_seq = 2\<rparr>"

definition ex_payment :: "uuid \<Rightarrow> uuid \<Rightarrow> rat \<Rightarrow> payment" where
  "ex_payment k i a = \<lparr>pay_id = k, pay_invoice_id = Some i, pay_amount = a, pay_type = partial,
     pay_mode = mpesa, pay_status = confirmed\<rparr>"

text \<open>An invoice with a tax of 160 whose only item is the rent.\<close>

definition ex_db_rent_only :: db where
  "ex_db_rent_only = \<lparr>invoices = [ex_invoice\<lparr>subtotal := 1000, tax_amount := 160, total_amount := 1160\<rparr>],
     invoice_items = [ex_rent], payments = [], utilities = [], deposits = [],
     invoice_number_seq = 1\<rparr>"

text \<open>The invoice of the scenario, cancelled: its items void and its amounts zero.\<close>

definition ex_db_cancelled :: db where
  "ex_db_cancelled = \<lparr>invoices = [cancel ex_invoice],
     invoice_items = [ex_rent\<lparr>item_state := void\<rparr>, ex_water\<lparr>item_state := void\<rparr>],
     payments = [], utilities = [ex_reading\<lparr>src_status := invoiced\<rparr>], deposits = [],
     invoice_number_seq = 1\<rparr>"

text \<open>The form of the scenario, its surroundings, and a database with no invoice yet.\<close>

definition ex_env :: submit_env where
  "ex_env = \<lparr>auth_user = User 7, today = ''20250223'', new_invoice_id = 31,
     new_item_id = (\<lambda>n. 10 + n), invoice_request_fails = False, items_request_fails = False,
     utilities_request_fails = False, deposits_request_fails = False\<rparr>"

definition ex_form :: form_state where
  "ex_form = \<lparr>selectedPropertyId = Some 3, selectedUnitId = Some 4, selectedTenant = Some 5,
     invoiceItems =
       [\<lparr>d_type = rent, d_description = ''Monthly Rent'', d_amount = 1000, d_reference_id = None\<rparr>,
        \<lparr>d_type = utility, d_description = ''Water - 2/2025'', d_amount = 150, d_reference_id = Some 40\<rparr>],
     taxes = [\<lparr>tax_id = 60, tax_name = ''VAT'', percentage = 16\<rparr>,
              \<lparr>tax_id = 61, tax_name = ''Levy'', percentage = 25 / 2\<rparr>],
     selectedTaxId = Some 60, applyTax = True, dueDate = ''2025-03-01''\<rparr>"

definition ex_db_empty :: db where
  "ex_db_empty = \<lparr>invoices = [], invoice_items = [], payments = [],
     utilities = [ex_reading], deposits = [], invoice_number_seq = 0\<rparr>"


text \<open>
  The same where the water meter was read backwards: the utilities table has no CHECK on
  \<open>amount\<close>, and the saved reading has a negative amount, which the form takes over.
\<close>

definition ex_db_negative :: db where
  "ex_db_negative = ex_db_empty\<lparr>utilities := [ex_reading\<lparr>src_amount := - 50\<rparr>]\<rparr>"

definition ex_form_negative :: form_state where
  "ex_form_negative = ex_form\<lparr>invoiceItems :=
       [\<lparr>d_type = rent, d_description = ''Monthly Rent'', d_amount = 1000, d_reference_id = None\<rparr>,
        \<lparr>d_type = utility, d_description = ''Water - 2/2025'', d_amount = - 50, d_reference_id = Some 40\<rparr>]\<rparr>"

text \<open>
  A database whose sequence stands at 9999 and which holds the invoice numbered with the
  sequence value 1000 of the same day.
\<close>

definition ex_db_9999 :: db where
  "ex_db_9999 = \<lparr>invoices = [ex_invoice\<lparr>invoice_number := Some ''INV-20250223-1000''\<rparr>],
     invoice_items = [], payments = [], utilities = [], deposits = [], invoice_number_seq = 9999\<rparr>"

section \<open>The totals of an invoice follow its items\<close>

lemma coalesce_sql_sum: "coalesce_value (sql_sum xs) 0 = sum_list xs"
  by (simp add: coalesce_value_def sql_sum_def)

lemma in_parents: "i \<in> parents rows \<longleftrightarrow> (\<exists>r\<in>set rows. item_invoice_id r = Some i)"
  by (auto simp: parents_def image_iff)

lemma items_update_invoices [simp]: "invoice_items (update_invoices P f d) = invoice_items d"
  by (simp add: update_invoices_def)

lemma invoices_update_invoices:
  "invoices (update_invoices P f d) = map (\<lambda>r. if P r then f r else r) (invoices d)"
  by (simp add: update_invoices_def)

lemma items_trigger [simp]: "invoice_items (update_invoice_totals op new old d) = invoice_items d"
  by (simp add: update_invoice_totals_def Let_def)

lemma active_sum_trigger [simp]:
  "active_item_sum (update_invoice_totals op new old d) i = active_item_sum d i"
  by (simp add: active_item_sum_def)

text \<open>One call of the trigger keeps every invoice that is in step with its items in step.\<close>

lemma trigger_preserves:
  "totals_ok d j \<Longrightarrow> totals_ok (update_invoice_totals op new old d) j"
  by (cases op)
    (auto simp: totals_ok_def update_invoice_totals_def Let_def invoices_update_invoices
      list_all_iff id_is_def coalesce_sql_sum active_item_sum_def coalesce_def row_invoice_id_def
      active_amounts_def sum_list_map_filter' split: option.splits)

text \<open>One call of the trigger brings the invoice it works on in step, whatever it held.\<close>

lemma trigger_establishes:
  "targets op new old i \<Longrightarrow> totals_ok (update_invoice_totals op new old d) i"
  by (cases op)
    (auto simp: targets_def totals_ok_def update_invoice_totals_def Let_def invoices_update_invoices
      list_all_iff id_is_def coalesce_sql_sum active_item_sum_def coalesce_def row_invoice_id_def
      active_amounts_def sum_list_map_filter' split: option.splits)

lemma items_fire [simp]: "invoice_items (fire_item_triggers op rows d) = invoice_items d"
  unfolding fire_item_triggers_def by (induction rows arbitrary: d) auto

lemma fire_preserves: "totals_ok d j \<Longrightarrow> totals_ok (fire_item_triggers op rows d) j"
  unfolding fire_item_triggers_def
  by (induction rows arbitrary: d) (auto simp: trigger_preserves)

lemma fire_establishes:
  "(new, old) \<in> set rows \<Longrightarrow> targets op new old i \<Longrightarrow> totals_ok (fire_item_triggers op rows d) i"
proof (induction rows arbitrary: d)
  case Nil
  then show ?case by simp
next
  case (Cons x xs)
  have step: "fire_item_triggers op (x # xs) d =
      fire_item_triggers op xs (update_invoice_totals op (fst x) (snd x) d)"
    by (simp add: fire_item_triggers_def case_prod_unfold)
  show ?case
  proof (cases "x = (new, old)")
    case True
    then show ?thesis
      unfolding step using Cons.prems(2) by (simp add: fire_preserves trigger_establishes)
  next
    case False
    with Cons.prems have "(new, old) \<in> set xs" by simp
    then show ?thesis unfolding step using Cons.IH Cons.prems(2) by blast
  qed
qed

lemma sum_if_filter:
  "(\<Sum>x\<leftarrow>xs. if P x \<and> Q x then f x else (0::rat)) = (\<Sum>x\<leftarrow>filter P xs. if Q x then f x else 0)"
  by (induction xs) simp_all

text \<open>The sum of an invoice reads the items of that invoice only.\<close>

lemma active_sum_cong:
  assumes "filter (\<lambda>it. item_invoice_id it = Some i) (invoice_items d') =
           filter (\<lambda>it. item_invoice_id it = Some i) (invoice_items d)"
  shows "active_item_sum d' i = active_item_sum d i"
  unfolding active_item_sum_def sum_if_filter using assms by simp

lemma totals_ok_cong:
  "invoices d' = invoices d \<Longrightarrow> active_item_sum d' i = active_item_sum d i
   \<Longrightarrow> totals_ok d' i = totals_ok d i"
  by (simp add: totals_ok_def)

lemma insert_step:
  assumes "insert_invoice_items rows d = Ok d'"
  shows "i \<in> parents rows \<or> totals_ok d i \<Longrightarrow> totals_ok d' i"
proof -
  let ?d1 = "d\<lparr>invoice_items := invoice_items d @ rows\<rparr>"
  have d': "d' = fire_item_triggers INSERT (map (\<lambda>r. (Some r, None)) rows) ?d1"
    using assms by (auto simp: insert_invoice_items_def split: if_splits)
  assume "i \<in> parents rows \<or> totals_ok d i"
  then show ?thesis
  proof (cases "i \<in> parents rows")
    case True
    then obtain r where r: "r \<in> set rows" "item_invoice_id r = Some i"
      by (auto simp: in_parents)
    have "(Some r, None) \<in> set (map (\<lambda>r. (Some r, None)) rows)" using r by auto
    moreover have "targets INSERT (Some r) None i"
      using r by (simp add: targets_def row_invoice_id_def)
    ultimately show ?thesis unfolding d' by (rule fire_establishes)
  next
    case False
    assume "i \<in> parents rows \<or> totals_ok d i"
    with False have ok: "totals_ok d i" by simp
    from False have "filter (\<lambda>it. item_invoice_id it = Some i) rows = []"
      by (auto simp: in_parents filter_empty_conv)
    then have "active_item_sum ?d1 i = active_item_sum d i"
      by (intro active_sum_cong) simp
    then have "totals_ok ?d1 i" using ok totals_ok_cong[of ?d1 d i] by simp
    then show ?thesis unfolding d' by (rule fire_preserves)
  qed
qed

lemma update_status_step:
  assumes "i \<in> parents (filter P (invoice_items d)) \<or> totals_ok d i"
  shows "totals_ok (update_item_status P st d) i"
proof -
  let ?f = "\<lambda>r. if P r then r\<lparr>item_state := st\<rparr> else r"
  let ?d1 = "d\<lparr>invoice_items := map ?f (invoice_items d)\<rparr>"
  let ?rows = "map (\<lambda>r. (Some (r\<lparr>item_state := st\<rparr>), Some r)) (filter P (invoice_items d))"
  have eq: "update_item_status P st d = fire_item_triggers UPDATE ?rows ?d1"
    by (simp add: update_item_status_def)
  show ?thesis
  proof (cases "i \<in> parents (filter P (invoice_items d))")
    case True
    then obtain r where r: "r \<in> set (invoice_items d)" "P r" "item_invoice_id r = Some i"
      by (auto simp: in_parents)
    have "(Some (r\<lparr>item_state := st\<rparr>), Some r) \<in> set ?rows" using r by auto
    moreover have "targets UPDATE (Some (r\<lparr>item_state := st\<rparr>)) (Some r) i"
      using r by (simp add: targets_def row_invoice_id_def)
    ultimately show ?thesis unfolding eq by (rule fire_establishes)
  next
    case False
    with assms have ok: "totals_ok d i" by simp
    from False have no: "\<forall>r\<in>set (invoice_items d). item_invoice_id r = Some i \<longrightarrow> \<not> P r"
      by (auto simp: in_parents)
    have "filter (\<lambda>it. item_invoice_id it = Some i) (map ?f xs) =
          filter (\<lambda>it. item_invoice_id it = Some i) xs"
      if "\<forall>r\<in>set xs. item_invoice_id r = Some i \<longrightarrow> \<not> P r" for xs
      using that by (induction xs) auto
    from this[OF no] have "active_item_sum ?d1 i = active_item_sum d i"
      by (intro active_sum_cong) simp
    then have "totals_ok ?d1 i" using ok totals_ok_cong[of ?d1 d i] by simp
    then show ?thesis unfolding eq by (rule fire_preserves)
  qed
qed

lemma delete_step:
  assumes "i \<in> parents (filter (\<lambda>r. item_id r = iid) (invoice_items d)) \<or> totals_ok d i"
  shows "totals_ok (delete_invoice_item iid d) i"
proof -
  let ?d1 = "d\<lparr>invoice_items := filter (\<lambda>r. item_id r \<noteq> iid) (invoice_items d)\<rparr>"
  let ?rows = "map (\<lambda>r. (None, Some r)) (filter (\<lambda>r. item_id r = iid) (invoice_items d))"
  have eq: "delete_invoice_item iid d = fire_item_triggers DELETE ?rows ?d1"
    by (simp add: delete_invoice_item_def)
  show ?thesis
  proof (cases "i \<in> parents (filter (\<lambda>r. item_id r = iid) (invoice_items d))")
    case True
    then obtain r where r: "r \<in> set (invoice_items d)" "item_id r = iid" "item_invoice_id r = Some i"
      by (auto simp: in_parents)
    have "(None, Some r) \<in> set ?rows" using r by auto
    moreover have "targets DELETE None (Some r) i"
      using r by (simp add: targets_def row_invoice_id_def)
    ultimately show ?thesis unfolding eq by (rule fire_establishes)
  next
    case False
    with assms have ok: "totals_ok d i" by simp
    from False have no: "\<forall>r\<in>set (invoice_items d). item_invoice_id r = Some i \<longrightarrow> item_id r \<noteq> iid"
      by (auto simp: in_parents)
    have "filter (\<lambda>it. item_invoice_id it = Some i) (filter (\<lambda>r. item_id r \<noteq> iid) xs) =
          filter (\<lambda>it. item_invoice_id it = Some i) xs"
      if "\<forall>r\<in>set xs. item_invoice_id r = Some i \<longrightarrow> item_id r \<noteq> iid" for xs
      using that by (induction xs) auto
    from this[OF no] have "active_item_sum ?d1 i = active_item_sum d i"
      by (intro active_sum_cong) simp
    then have "totals_ok ?d1 i" using ok totals_ok_cong[of ?d1 d i] by simp
    then show ?thesis unfolding eq by (rule fire_preserves)
  qed
qed

lemma event_step:
  "i \<in> touched_by d e \<or> totals_ok d i \<Longrightarrow> totals_ok (db_after (exec_item_event d e)) i"
proof (cases e)
  case (Insert_items rows)
  assume h: "i \<in> touched_by d e \<or> totals_ok d i"
  show ?thesis
  proof (cases "insert_invoice_items rows d")
    case (Ok d')
    then show ?thesis using h Insert_items insert_step[OF Ok, of i]
      by (simp add: db_after_def succeeded_def)
  next
    case (Rollback err d')
    then have "d' = d" by (auto simp: insert_invoice_items_def split: if_splits)
    then show ?thesis using h Insert_items Rollback
      by (simp add: db_after_def succeeded_def)
  qed
next
  case (Set_status iid st)
  assume "i \<in> touched_by d e \<or> totals_ok d i"
  then show ?thesis using Set_status update_status_step[of i "\<lambda>r. item_id r = iid" d st]
    by (simp add: db_after_def)
next
  case (Delete_item iid)
  assume "i \<in> touched_by d e \<or> totals_ok d i"
  then show ?thesis using Delete_item delete_step[of i iid d]
    by (simp add: db_after_def)
qed

section \<open>What the item trigger leaves alone\<close>

text \<open>The item trigger writes subtotal and total_amount and nothing else.\<close>

lemma trigger_frame:
  "map inv_status (invoices (update_invoice_totals op new old d)) = map inv_status (invoices d)"
  "map tax_amount (invoices (update_invoice_totals op new old d)) = map tax_amount (invoices d)"
  "map inv_id (invoices (update_invoice_totals op new old d)) = map inv_id (invoices d)"
  "payments (update_invoice_totals op new old d) = payments d"
  by (simp_all add: update_invoice_totals_def Let_def update_invoices_def comp_def)

lemma fire_frame:
  "map inv_status (invoices (fire_item_triggers op rows d)) = map inv_status (invoices d)"
  "map tax_amount (invoices (fire_item_triggers op rows d)) = map tax_amount (invoices d)"
  "map inv_id (invoices (fire_item_triggers op rows d)) = map inv_id (invoices d)"
  "payments (fire_item_triggers op rows d) = payments d"
  unfolding fire_item_triggers_def
  by (induction rows arbitrary: d; simp add: trigger_frame case_prod_unfold)+

lemma item_event_frame:
  "map inv_status (invoices (db_after (exec_item_event d e))) = map inv_status (invoices d)"
  "map tax_amount (invoices (db_after (exec_item_event d e))) = map tax_amount (invoices d)"
  "map inv_id (invoices (db_after (exec_item_event d e))) = map inv_id (invoices d)"
  by (cases e; simp add: db_after_def insert_invoice_items_def update_item_status_def
      delete_invoice_item_def fire_frame)+

lemma delete_frame:
  "map tax_amount (invoices (delete_invoice_item iid d)) = map tax_amount (invoices d)"
  by (simp add: delete_invoice_item_def fire_frame)

lemma void_item_keeps_tax:
  "map tax_amount (invoices (void_invoice_item iid d)) = map tax_amount (invoices d)"
  by (simp add: void_invoice_item_def update_item_status_def fire_frame)

lemma active_sum_zero:
  assumes "list_all (\<lambda>x. item_invoice_id x \<noteq> Some i \<or> item_state x = void) (invoice_items d)"
  shows "active_item_sum d i = 0"
proof -
  have "(\<Sum>it\<leftarrow>xs. if item_invoice_id it = Some i \<and> item_state it = active then amount it else 0) = 0"
    if "list_all (\<lambda>x. item_invoice_id x \<noteq> Some i \<or> item_state x = void) xs"
    for xs :: "invoice_item list"
    using that by (induction xs) auto
  from this[OF assms] show ?thesis by (simp add: active_item_sum_def)
qed

text \<open>Deleting the only active item of an invoice.\<close>

lemma delete_last_active:
  assumes it: "it \<in> set (invoice_items d)" "item_id it = iid" "item_invoice_id it = Some i"
    and rest: "list_all (\<lambda>x. item_id x = iid \<or> item_invoice_id x \<noteq> Some i \<or> item_state x = void)
                 (invoice_items d)"
  shows "list_all (\<lambda>r. inv_id r \<noteq> i \<or> (subtotal r = 0 \<and> total_amount r = tax_amount r))
           (invoices (delete_invoice_item iid d))"
proof -
  let ?d' = "delete_invoice_item iid d"
  have "i \<in> parents (filter (\<lambda>r. item_id r = iid) (invoice_items d))"
    using it by (auto simp: in_parents)
  then have ok: "totals_ok ?d' i" using delete_step by blast
  have "invoice_items ?d' = filter (\<lambda>r. item_id r \<noteq> iid) (invoice_items d)"
    by (simp add: delete_invoice_item_def)
  then have "list_all (\<lambda>x. item_invoice_id x \<noteq> Some i \<or> item_state x = void) (invoice_items ?d')"
    using rest by (auto simp: list_all_iff)
  then have "active_item_sum ?d' i = 0" by (rule active_sum_zero)
  with ok show ?thesis by (auto simp: totals_ok_def list_all_iff)
qed

text \<open>The sum of an invoice after one of its active items is voided.\<close>

lemma active_sum_void_one:
  assumes "distinct (map item_id xs)" "it \<in> set xs" "item_invoice_id it = Some i" "item_state it = active"
  shows "(\<Sum>x\<leftarrow>map (\<lambda>r. if item_id r = item_id it then r\<lparr>item_state := void\<rparr> else r) xs.
            if item_invoice_id x = Some i \<and> item_state x = active then amount x else 0) =
         (\<Sum>x\<leftarrow>xs. if item_invoice_id x = Some i \<and> item_state x = active then amount x else 0) - amount it"
  using assms
proof (induction xs)
  case Nil
  then show ?case by simp
next
  case (Cons a xs)
  show ?case
  proof (cases "a = it")
    case True
    have "map (\<lambda>r. if item_id r = item_id it then r\<lparr>item_state := void\<rparr> else r) xs = xs"
      using Cons.prems(1) True by (intro map_idI) (auto simp: image_iff)
    then show ?thesis using True Cons.prems by (simp add: comp_def)
  next
    case False
    then have "it \<in> set xs" "item_id a \<noteq> item_id it" using Cons.prems by (auto simp: image_iff)
    then show ?thesis using Cons by (simp add: comp_def)
  qed
qed

lemma trigger_update_explicit:
  "item_invoice_id n = Some i \<Longrightarrow>
   invoices (update_invoice_totals UPDATE (Some n) old d) =
     map (\<lambda>r. if inv_id r = i
               then r\<lparr>subtotal := active_item_sum d i, total_amount := active_item_sum d i + tax_amount r\<rparr>
               else r) (invoices d)"
  by (auto simp: update_invoice_totals_def Let_def update_invoices_def id_is_def coalesce_def
      row_invoice_id_def coalesce_sql_sum active_amounts_def active_item_sum_def sum_list_map_filter')

text \<open>
  Voiding one active item of an invoice that is in step: the subtotal drops by the amount of
  the item, the total is the new subtotal plus the tax, and the tax and every other invoice
  stay as they were.
\<close>

lemma void_item_effect:
  assumes pk: "distinct (map item_id (invoice_items d))"
    and it: "it \<in> set (invoice_items d)" "item_invoice_id it = Some i" "item_state it = active"
    and ok: "totals_ok d i"
  shows "invoices (void_invoice_item (item_id it) d) =
     map (\<lambda>r. if inv_id r = i
               then r\<lparr>subtotal := subtotal r - amount it,
                      total_amount := subtotal r - amount it + tax_amount r\<rparr>
               else r) (invoices d)"
proof -
  let ?f = "\<lambda>r. if item_id r = item_id it then r\<lparr>item_state := void\<rparr> else r"
  let ?d1 = "d\<lparr>invoice_items := map ?f (invoice_items d)\<rparr>"
  have one: "filter (\<lambda>r. item_id r = item_id it) xs = [it]"
    if "distinct (map item_id xs)" "it \<in> set xs" for xs :: "invoice_item list"
    using that by (induction xs) (auto simp: filter_empty_conv image_iff)
  have "void_invoice_item (item_id it) d =
        update_invoice_totals UPDATE (Some (it\<lparr>item_state := void\<rparr>)) (Some it) ?d1"
    by (simp add: void_invoice_item_def update_item_status_def one[OF pk it(1)] fire_item_triggers_def)
  then have "invoices (void_invoice_item (item_id it) d) =
     map (\<lambda>r. if inv_id r = i
               then r\<lparr>subtotal := active_item_sum ?d1 i, total_amount := active_item_sum ?d1 i + tax_amount r\<rparr>
               else r) (invoices d)"
    using it(2) by (simp add: trigger_update_explicit)
  moreover have "active_item_sum ?d1 i = active_item_sum d i - amount it"
    unfolding active_item_sum_def using active_sum_void_one[OF pk it] by simp
  moreover have "\<forall>r\<in>set (invoices d). inv_id r = i \<longrightarrow> subtotal r = active_item_sum d i"
    using ok by (auto simp: totals_ok_def list_all_iff)
  ultimately show ?thesis by auto
qed

section \<open>The payment trigger\<close>

lemma map_update_invoices_field:
  "(\<And>r. g (f r) = g r) \<Longrightarrow> map g (invoices (update_invoices P f d)) = map g (invoices d)"
  by (simp add: update_invoices_def)

lemma payments_update_invoices [simp]: "payments (update_invoices P f d) = payments d"
  by (simp add: update_invoices_def)

lemma total_paid_confirmed:
  "coalesce_value (sql_sum (confirmed_amounts (payments d) (Some i))) 0 = total_paid d i"
  by (simp add: coalesce_sql_sum confirmed_amounts_def total_paid_def sum_list_map_filter')

lemma select_total_unique:
  assumes "distinct (map inv_id (invoices d))" "r \<in> set (invoices d)"
  shows "select_total_amount d (Some (inv_id r)) = Some (total_amount r)"
proof -
  have "filter (id_is (Some (inv_id r))) xs = [r]"
    if "distinct (map inv_id xs)" "r \<in> set xs" for xs
    using that by (induction xs) (auto simp: id_is_def filter_empty_conv image_iff)
  from this[OF assms] show ?thesis by (simp add: select_total_amount_def)
qed

lemma update_status_with:
  "invoices (update_invoices (id_is (Some i)) (\<lambda>r. r\<lparr>inv_status := s\<rparr>) d) = with_status i s (invoices d)"
  by (auto simp: update_invoices_def with_status_def id_is_def)

text \<open>What one call of the payment trigger does to the invoices.\<close>

lemma payment_trigger_effect:
  assumes "distinct (map inv_id (invoices d))" "r \<in> set (invoices d)"
    and "pay_invoice_id new = Some (inv_id r)"
  shows "invoices (update_invoice_status new d) =
     (if total_amount r \<le> total_paid d (inv_id r) then with_status (inv_id r) paid (invoices d)
      else if 0 < total_paid d (inv_id r) then with_status (inv_id r) partially_paid (invoices d)
      else invoices d)"
  using select_total_unique[OF assms(1,2)] assms(3)
  by (simp add: update_invoice_status_def Let_def total_paid_confirmed sql_ge_def update_status_with)

lemma payment_trigger_no_invoice:
  "pay_invoice_id new = None \<Longrightarrow> update_invoice_status new d = d"
  by (simp add: update_invoice_status_def)

text \<open>The bare trigger, when nothing confirmed stands against an invoice with a positive total.\<close>

lemma payment_trigger_nothing_paid:
  assumes "distinct (map inv_id (invoices d))" "r \<in> set (invoices d)"
    and "pay_invoice_id new = Some (inv_id r)"
    and "total_paid d (inv_id r) = 0" "0 < total_amount r"
  shows "update_invoice_status new d = d"
  using select_total_unique[OF assms(1,2)] assms(3,4,5)
  by (simp add: update_invoice_status_def Let_def total_paid_confirmed sql_ge_def)

lemma payment_trigger_frame [simp]:
  "payments (update_invoice_status new d) = payments d"
  "invoice_items (update_invoice_status new d) = invoice_items d"
  by (simp_all add: update_invoice_status_def Let_def)

lemma total_paid_pos:
  assumes "list_all (\<lambda>p. 0 < pay_amount p) ps" "p \<in> set ps" "pay_invoice_id p = Some i"
  shows "0 < (\<Sum>p\<leftarrow>ps. if pay_invoice_id p = Some i \<and> pay_status p = confirmed then pay_amount p else 0)"
proof -
  have st: "pay_status q = confirmed" for q by (cases "pay_status q") simp
  have nonneg: "0 \<le> (\<Sum>p\<leftarrow>xs. if pay_invoice_id p = Some i \<and> pay_status p = confirmed then pay_amount p else 0)"
    if "list_all (\<lambda>p. 0 < pay_amount p) xs" for xs
    using that by (induction xs) (auto simp: add_nonneg_nonneg less_imp_le)
  show ?thesis using assms
  proof (induction ps)
    case Nil then show ?case by simp
  next
    case (Cons a ps)
    then show ?case using nonneg[of ps] st
      by (auto simp: add_pos_nonneg add_nonneg_pos less_imp_le)
  qed
qed

text \<open>
  A payment statement that succeeds is one call of the trigger on the table as the statement
  has left it; the new row is in the table, and every amount in it is positive.
\<close>

lemma event_as_trigger:
  assumes ok: "exec_payment_event d ev = Ok d'" and new: "new_rows d ev = [new]"
    and con: "constraints_hold d"
  shows "\<exists>d1. d' = update_invoice_status new d1 \<and> invoices d1 = invoices d \<and>
           new \<in> set (payments d1) \<and> list_all (\<lambda>p. 0 < pay_amount p) (payments d1)"
proof (cases ev)
  case (Insert_payment p)
  with ok new con show ?thesis
    by (auto simp: insert_payment_def constraints_hold_def list_all_iff split: if_splits
        intro!: exI[of _ "d\<lparr>payments := payments d @ [p]\<rparr>"])
next
  case (Update_payment pid a s)
  let ?set = "\<lambda>p::payment. p\<lparr>pay_amount := a, pay_status := s\<rparr>"
  let ?d1 = "d\<lparr>payments := map (\<lambda>p. if pay_id p = pid then ?set p else p) (payments d)\<rparr>"
  from new Update_payment obtain q where q: "filter (\<lambda>p. pay_id p = pid) (payments d) = [q]" "new = ?set q"
    by (auto simp: map_eq_Cons_conv)
  have "q \<in> set (filter (\<lambda>p. pay_id p = pid) (payments d))" using q(1) by simp
  then have qin: "q \<in> set (payments d)" "pay_id q = pid" by simp_all
  from ok Update_payment q have a: "0 < a" and d': "d' = update_invoice_status new ?d1"
    by (auto simp: update_payment_def Let_def split: if_splits)
  have "new \<in> set (payments ?d1)" using qin q(2) by (auto simp: image_iff intro!: bexI[of _ q])
  moreover have "list_all (\<lambda>p. 0 < pay_amount p) (payments ?d1)"
    using con a by (auto simp: constraints_hold_def list_all_iff)
  ultimately show ?thesis using d' by (intro exI[of _ ?d1]) simp
qed

section \<open>Voiding a whole invoice, by the reading of the name\<close>

lemma cancel_after_totals:
  "row_invoice_id new = Some i \<Longrightarrow>
   map (\<lambda>r. if inv_id r = i then cancel r else r) (invoices (update_invoice_totals UPDATE new old d)) =
   map (\<lambda>r. if inv_id r = i then cancel r else r) (invoices d)"
  by (auto simp: update_invoice_totals_def Let_def update_invoices_def id_is_def coalesce_def cancel_def)

lemma cancel_after_fire:
  "list_all (\<lambda>(new, old). row_invoice_id new = Some i) rows \<Longrightarrow>
   map (\<lambda>r. if inv_id r = i then cancel r else r) (invoices (fire_item_triggers UPDATE rows d)) =
   map (\<lambda>r. if inv_id r = i then cancel r else r) (invoices d)"
  unfolding fire_item_triggers_def
  by (induction rows arbitrary: d) (auto simp: cancel_after_totals)

text \<open>What \<open>void_invoice\<close> does when the name is read as the column.\<close>

lemma void_invoice_use_column:
  "void_invoice use_column i d = Ok d' \<Longrightarrow>
     invoice_items d' =
       map (\<lambda>it. if item_invoice_id it = Some i then it\<lparr>item_state := void\<rparr> else it) (invoice_items d) \<and>
     invoices d' = map (\<lambda>r. if inv_id r = i then cancel r else r) (invoices d)"
proof -
  assume "void_invoice use_column i d = Ok d'"
  then have d': "d' = update_invoices (id_is (Some i)) cancel
                (update_item_status (\<lambda>r. item_invoice_id r = Some i) void d)"
    by (simp add: void_invoice_def)
  let ?rows = "map (\<lambda>r. (Some (r\<lparr>item_state := void\<rparr>), Some r))
                 (filter (\<lambda>r. item_invoice_id r = Some i) (invoice_items d))"
  have rows: "list_all (\<lambda>(new, old). row_invoice_id new = Some i) ?rows"
    by (auto simp: list_all_iff row_invoice_id_def)
  have "invoices d' = map (\<lambda>r. if inv_id r = i then cancel r else r)
        (invoices (update_item_status (\<lambda>r. item_invoice_id r = Some i) void d))"
    unfolding d' by (auto simp: update_invoices_def id_is_def)
  also have "\<dots> = map (\<lambda>r. if inv_id r = i then cancel r else r) (invoices d)"
    unfolding update_item_status_def using cancel_after_fire[OF rows] by simp
  finally show ?thesis by (simp add: d' update_item_status_def)
qed

lemma void_invoice_default: "void_invoice conflict_error i d = Rollback (Ambiguous_column ''invoice_id'') d"
  by (simp add: void_invoice_def)

section \<open>Invoice numbers: what is generated\<close>

lemma lpad_length: "length (lpad s n c) = n"
  by (simp add: lpad_def)

lemma show_nat_digit: "n < 10 \<Longrightarrow> show_nat n = [digit_char n]"
  by (subst show_nat.simps) simp

lemma show_nat_step: "10 \<le> n \<Longrightarrow> show_nat n = show_nat (n div 10) @ [digit_char (n mod 10)]"
  by (subst show_nat.simps) simp

lemma show_nat_1000: "show_nat 1000 = ''1000''"
  by (simp add: show_nat_digit show_nat_step digit_char_def)

lemma show_nat_10000: "show_nat 10000 = ''10000''"
  by (simp add: show_nat_digit show_nat_step digit_char_def)

lemma show_nat_1: "show_nat (Suc 0) = ''1''"
  by (simp add: show_nat_digit digit_char_def)

lemma generate_invoice_number_format:
  "Suc (invoice_number_seq d) \<le> 2147483647 \<Longrightarrow>
   \<exists>w. length w = 4 \<and>
     generate_invoice_number day d =
       (Inr (''INV-'' @ day @ ''-'' @ w), d\<lparr>invoice_number_seq := Suc (invoice_number_seq d)\<rparr>)"
  by (simp add: generate_invoice_number_def nextval_def lpad_length)

lemma digit_char_inj: "a < 10 \<Longrightarrow> b < 10 \<Longrightarrow> digit_char a = digit_char b \<Longrightarrow> a = b"
proof -
  assume "a < 10" "b < 10" "digit_char a = digit_char b"
  moreover have "distinct ''0123456789''" by simp
  ultimately show ?thesis
    unfolding digit_char_def by (simp add: nth_eq_iff_index_eq)
qed

text \<open>Below 10000 the four characters are the four decimal digits of the sequence value.\<close>

lemma lpad_digits:
  assumes "v < 10000"
  shows "lpad (show_nat v) 4 (CHR ''0'') =
     [digit_char (v div 1000), digit_char (v div 100 mod 10), digit_char (v div 10 mod 10),
      digit_char (v mod 10)]"
proof -
  have z: "digit_char 0 = CHR ''0''" by (simp add: digit_char_def)
  have rep: "replicate 3 c = [c, c, c]" "replicate 2 c = [c, c]" "replicate 1 c = [c]" for c :: char
    by (simp_all add: numeral_3_eq_3 numeral_2_eq_2)
  have pad: "lpad [a] 4 c = [c, c, c, a]" "lpad [a, b] 4 c = [c, c, a, b]"
    "lpad [a, b, e] 4 c = [c, a, b, e]" "lpad [a, b, e, f] 4 c = [a, b, e, f]" for a b e f c :: char
    by (simp_all add: lpad_def rep)
  consider "v < 10" | "10 \<le> v" "v < 100" | "100 \<le> v" "v < 1000" | "1000 \<le> v"
    by linarith
  then show ?thesis
  proof cases
    case 1
    then have "show_nat v = [digit_char v]" by (rule show_nat_digit)
    moreover have "v div 1000 = 0" "v div 100 = 0" "v div 10 = 0" "v mod 10 = v" using 1 by simp_all
    ultimately show ?thesis by (simp add: pad z)
  next
    case 2
    then have "show_nat v = [digit_char (v div 10), digit_char (v mod 10)]"
      by (simp add: show_nat_step[of v] show_nat_digit[of "v div 10"])
    moreover have "v div 1000 = 0" "v div 100 = 0" "v div 10 mod 10 = v div 10" using 2 by simp_all
    ultimately show ?thesis by (simp add: pad z)
  next
    case 3
    have b: "v div 10 div 10 = v div 100" by (simp add: div_mult2_eq[symmetric])
    have c: "10 \<le> v" "10 \<le> v div 10" "v div 100 < 10" using 3 by auto
    have "show_nat v = [digit_char (v div 100), digit_char (v div 10 mod 10), digit_char (v mod 10)]"
      using c(3) by (simp add: show_nat_step[OF c(1)] show_nat_step[OF c(2)] b show_nat_digit)
    moreover have "v div 1000 = 0" "v div 100 mod 10 = v div 100" using 3 c(3) by simp_all
    ultimately show ?thesis by (simp add: pad z)
  next
    case 4
    have b: "v div 10 div 10 = v div 100" "v div 100 div 10 = v div 1000"
      by (simp_all add: div_mult2_eq[symmetric])
    have c: "10 \<le> v" "10 \<le> v div 10" "10 \<le> v div 100" "v div 1000 < 10" using 4 assms by auto
    have "show_nat v = [digit_char (v div 1000), digit_char (v div 100 mod 10),
                        digit_char (v div 10 mod 10), digit_char (v mod 10)]"
      using c(3,4) by (simp add: show_nat_step[OF c(1)] show_nat_step[OF c(2)] b show_nat_step[of "v div 100"] show_nat_digit)
    then show ?thesis by (simp add: pad)
  qed
qed

lemma decimal_split:
  "v div 100 = v div 1000 * 10 + v div 100 mod 10"
  "v div 10 = v div 100 * 10 + v div 10 mod 10"
  "v = v div 10 * 10 + v mod 10" for v :: nat
proof -
  have "v div 100 div 10 = v div 1000" "v div 10 div 10 = v div 100"
    by (simp_all add: div_mult2_eq[symmetric])
  then show "v div 100 = v div 1000 * 10 + v div 100 mod 10"
    "v div 10 = v div 100 * 10 + v div 10 mod 10"
    using div_mult_mod_eq[of "v div 100" 10] div_mult_mod_eq[of "v div 10" 10] by simp_all
  show "v = v div 10 * 10 + v mod 10" by simp
qed

text \<open>Hence no two sequence values below 10000 give the same four characters.\<close>

lemma lpad_inj_below_10000:
  assumes "v < 10000" "w < 10000"
    and "lpad (show_nat v) 4 (CHR ''0'') = lpad (show_nat w) 4 (CHR ''0'')"
  shows "v = w"
proof -
  have eq: "[digit_char (v div 1000), digit_char (v div 100 mod 10), digit_char (v div 10 mod 10),
      digit_char (v mod 10)] =
     [digit_char (w div 1000), digit_char (w div 100 mod 10), digit_char (w div 10 mod 10),
      digit_char (w mod 10)]"
    using assms(3) unfolding lpad_digits[OF assms(1)] lpad_digits[OF assms(2)] .
  have lt: "v div 1000 < 10" "w div 1000 < 10"
    using assms(1,2) by (simp_all add: div_less_iff_less_mult)
  have 1: "v div 1000 = w div 1000"
    using eq lt by (intro digit_char_inj) simp_all
  have 2: "v div 100 mod 10 = w div 100 mod 10"
    using eq by (intro digit_char_inj) simp_all
  have 3: "v div 10 mod 10 = w div 10 mod 10"
    using eq by (intro digit_char_inj) simp_all
  have 4: "v mod 10 = w mod 10"
    using eq by (intro digit_char_inj) simp_all
  have "v div 100 = w div 100"
    using decimal_split(1)[of v] decimal_split(1)[of w] 1 2 by (simp only:)
  then have "v div 10 = w div 10"
    using decimal_split(2)[of v] decimal_split(2)[of w] 3 by (simp only:)
  then show "v = w"
    using decimal_split(3)[of v] decimal_split(3)[of w] 4 by (simp only:)
qed

text \<open>The stored invoice numbers stay pairwise different: the UNIQUE constraint sees to it.\<close>

lemma insert_invoice_numbers_distinct:
  assumes "insert_invoice day new d = Ok d1" "distinct (map invoice_number (invoices d))"
  shows "distinct (map invoice_number (invoices d1))"
proof (cases "set_invoice_number day new d")
  case (Pair a d0)
  have inv0: "invoices d0 = invoices d"
    using Pair
    by (auto simp: set_invoice_number_def generate_invoice_number_def nextval_def
        split: if_splits)
  show ?thesis
  proof (cases a)
    case (Inl e)
    with Pair assms(1) show ?thesis by (simp add: insert_invoice_def)
  next
    case (Inr row)
    with Pair assms(1) have "d1 = d0\<lparr>invoices := invoices d0 @ [row]\<rparr>"
      "invoice_number row \<notin> set (map invoice_number (invoices d0))"
      by (simp_all add: insert_invoice_def split: if_splits)
    with assms(2) inv0 show ?thesis by simp
  qed
qed

section \<open>Submitting the form\<close>

lemma foldl_sum: "foldl (\<lambda>sum item. sum + f item) a xs = a + sum_list (map f xs)"
  for a :: rat
  by (induction xs arbitrary: a) (simp_all add: add.assoc)

lemma calculateTotals_subtotal:
  "t_subtotal (calculateTotals st) = sum_list (map d_amount (invoiceItems st))"
  by (simp add: calculateTotals_def Let_def foldl_sum split: option.splits)

lemma calculateTotals_total:
  "total (calculateTotals st) = t_subtotal (calculateTotals st) + taxAmount (calculateTotals st)"
  by (simp add: calculateTotals_def Let_def split: option.splits)


lemma update_invoices_idle:
  "\<forall>r\<in>set (invoices d). P r \<longrightarrow> f r = r \<Longrightarrow> update_invoices P f d = d"
proof -
  assume "\<forall>r\<in>set (invoices d). P r \<longrightarrow> f r = r"
  then have "map (\<lambda>r. if P r then f r else r) (invoices d) = invoices d"
    by (intro map_idI) auto
  then show ?thesis by (simp add: update_invoices_def)
qed

text \<open>A call of the trigger on an invoice that is in step changes nothing.\<close>

lemma trigger_idle:
  assumes "totals_ok d i" "item_invoice_id n = Some i"
  shows "update_invoice_totals INSERT (Some n) None d = d"
proof -
  have s: "coalesce_value (sql_sum (active_amounts (invoice_items d) (Some i))) 0 = active_item_sum d i"
    by (simp add: coalesce_sql_sum active_amounts_def active_item_sum_def sum_list_map_filter')
  have 1: "update_invoices (id_is (Some i)) (\<lambda>r. r\<lparr>subtotal := active_item_sum d i\<rparr>) d = d"
    using assms(1) by (intro update_invoices_idle) (auto simp: totals_ok_def list_all_iff id_is_def)
  have 2: "update_invoices (id_is (Some i)) (\<lambda>r. r\<lparr>total_amount := subtotal r + tax_amount r\<rparr>) d = d"
    using assms(1) by (intro update_invoices_idle) (auto simp: totals_ok_def list_all_iff id_is_def)
  show ?thesis
    using assms(2) by (simp add: update_invoice_totals_def Let_def row_invoice_id_def coalesce_def s 1 2)
qed

lemma fire_idle:
  "totals_ok d i \<Longrightarrow> list_all (\<lambda>r. item_invoice_id r = Some i) rows \<Longrightarrow>
   fire_item_triggers INSERT (map (\<lambda>r. (Some r, None)) rows) d = d"
  unfolding fire_item_triggers_def
  by (induction rows) (auto simp: trigger_idle)

lemma set_invoice_number_fresh:
  "invoice_number new = None \<Longrightarrow>
   set_invoice_number day new d =
     (if 2147483647 < Suc (invoice_number_seq d)
      then (Inl Integer_out_of_range, d\<lparr>invoice_number_seq := Suc (invoice_number_seq d)\<rparr>)
      else (Inr (new\<lparr>invoice_number :=
                   Some (''INV-'' @ day @ ''-'' @ lpad (show_nat (Suc (invoice_number_seq d))) 4 (CHR ''0''))\<rparr>),
            d\<lparr>invoice_number_seq := Suc (invoice_number_seq d)\<rparr>))"
  by (simp add: set_invoice_number_def generate_invoice_number_def nextval_def)

lemma insert_invoice_ok:
  assumes ins: "insert_invoice day new d = Ok d1" and num: "invoice_number new = None"
  shows "\<exists>n. invoices d1 = invoices d @ [new\<lparr>invoice_number := Some n\<rparr>]"
    and "inv_id new \<notin> set (map inv_id (invoices d))"
    and "invoice_items d1 = invoice_items d" and "payments d1 = payments d"
    and "utilities d1 = utilities d" and "deposits d1 = deposits d"
proof -
  let ?d0 = "d\<lparr>invoice_number_seq := Suc (invoice_number_seq d)\<rparr>"
  let ?n = "''INV-'' @ day @ ''-'' @ lpad (show_nat (Suc (invoice_number_seq d))) 4 (CHR ''0'')"
  let ?row = "new\<lparr>invoice_number := Some ?n\<rparr>"
  have small: "\<not> 2147483647 < Suc (invoice_number_seq d)"
    using ins by (auto simp: insert_invoice_def set_invoice_number_fresh[OF num])
  then have sn: "set_invoice_number day new d = (Inr ?row, ?d0)"
    by (simp add: set_invoice_number_fresh[OF num])
  have pk: "inv_id new \<notin> set (map inv_id (invoices d))" and d1: "d1 = ?d0\<lparr>invoices := invoices d @ [?row]\<rparr>"
    using ins unfolding insert_invoice_def sn by (simp_all split: if_splits)
  show "\<exists>n. invoices d1 = invoices d @ [new\<lparr>invoice_number := Some n\<rparr>]"
    unfolding d1 by (intro exI[of _ ?n]) simp
  show "inv_id new \<notin> set (map inv_id (invoices d))" by (rule pk)
  show "invoice_items d1 = invoice_items d" "payments d1 = payments d"
    "utilities d1 = utilities d" "deposits d1 = deposits d"
    by (simp_all add: d1)
qed

lemma insert_invoice_frame:
  "invoice_items (db_after (insert_invoice day new d)) = invoice_items d"
  "utilities (db_after (insert_invoice day new d)) = utilities d"
  "deposits (db_after (insert_invoice day new d)) = deposits d"
  "payments (db_after (insert_invoice day new d)) = payments d"
proof -
  obtain a d0 where sn: "set_invoice_number day new d = (a, d0)" by (cases "set_invoice_number day new d")
  have d0: "invoice_items d0 = invoice_items d \<and> utilities d0 = utilities d \<and>
            deposits d0 = deposits d \<and> payments d0 = payments d"
    using sn
    by (auto simp: set_invoice_number_def generate_invoice_number_def nextval_def split: if_splits)
  have "invoice_items (db_after (insert_invoice day new d)) = invoice_items d \<and>
        utilities (db_after (insert_invoice day new d)) = utilities d \<and>
        deposits (db_after (insert_invoice day new d)) = deposits d \<and>
        payments (db_after (insert_invoice day new d)) = payments d"
    using d0 by (cases a) (simp_all add: insert_invoice_def sn db_after_def)
  then show "invoice_items (db_after (insert_invoice day new d)) = invoice_items d"
    "utilities (db_after (insert_invoice day new d)) = utilities d"
    "deposits (db_after (insert_invoice day new d)) = deposits d"
    "payments (db_after (insert_invoice day new d)) = payments d"
    by simp_all
qed

lemma insert_items_rollback:
  "insert_invoice_items rows d = Rollback e d' \<Longrightarrow> d' = d"
  by (auto simp: insert_invoice_items_def split: if_splits)

lemma items_data_props:
  "list_all (\<lambda>r. item_invoice_id r = Some (new_invoice_id env) \<and> item_state r = active)
     (invoiceItemsData env st)"
  "map amount (invoiceItemsData env st) = map d_amount (invoiceItems st)"
proof -
  show "list_all (\<lambda>r. item_invoice_id r = Some (new_invoice_id env) \<and> item_state r = active)
     (invoiceItemsData env st)"
    by (auto simp: invoiceItemsData_def list_all_iff)
  have "map amount (invoiceItemsData env st) = map (d_amount \<circ> snd) (enumerate 0 (invoiceItems st))"
    by (simp add: invoiceItemsData_def case_prod_unfold comp_def)
  also have "\<dots> = map d_amount (map snd (enumerate 0 (invoiceItems st)))"
    by (simp only: map_map)
  finally show "map amount (invoiceItemsData env st) = map d_amount (invoiceItems st)"
    by (simp only: map_snd_enumerate)
qed

lemma sum_all_active:
  "list_all (\<lambda>r. item_invoice_id r = Some i \<and> item_state r = active) rows \<Longrightarrow>
   (\<Sum>it\<leftarrow>rows. if item_invoice_id it = Some i \<and> item_state it = active then amount it else 0)
     = sum_list (map amount rows)"
  by (induction rows) auto

lemma sum_none:
  "list_all (\<lambda>r. item_invoice_id r \<noteq> Some i) rows \<Longrightarrow>
   (\<Sum>it\<leftarrow>rows. if item_invoice_id it = Some i \<and> item_state it = active then amount it else 0) = 0"
  by (induction rows) auto

lemma request_ok: "request fails stmt d = Ok d1 \<Longrightarrow> \<not> fails \<and> stmt d = Ok d1"
  by (simp add: request_def split: if_splits)

lemma flip_sources_fields:
  "invoices (flip_sources env st d) = invoices d"
  "invoice_items (flip_sources env st d) = invoice_items d"
  "payments (flip_sources env st d) = payments d"
  "utilities (flip_sources env st d) =
     (if utilityIds st \<noteq> [] \<and> \<not> utilities_request_fails env
      then mark_invoiced (utilityIds st) (utilities d) else utilities d)"
  "deposits (flip_sources env st d) =
     (if depositIds st \<noteq> [] \<and> \<not> deposits_request_fails env
      then mark_invoiced (depositIds st) (deposits d) else deposits d)"
  by (simp_all add: flip_sources_def Let_def request_def db_after_def update_utilities_def
      update_deposits_def)

lemma handleSubmit_user:
  "auth_user env = User uid \<Longrightarrow> handleSubmit env st d =
     (if selectedPropertyId st = None \<or> selectedUnitId st = None \<or> selectedTenant st = None then
            (Validation_alert ''Please select property, unit, and ensure there is a tenant'', d)
          else if length (invoiceItems st) = 0 then
            (Validation_alert ''Please add at least one item to the invoice'', d)
          else
            (case request (invoice_request_fails env)
                    (insert_invoice (today env) (invoice_row env st uid)) d of
               Rollback invoiceError d1 \<Rightarrow> (Failure_alert, d1)
             | Ok d1 \<Rightarrow>
                 (case request (items_request_fails env)
                         (insert_invoice_items (invoiceItemsData env st)) d1 of
                    Rollback itemsError d2 \<Rightarrow> (Failure_alert, d2)
                  | Ok d2 \<Rightarrow> (Created, flip_sources env st d2))))"
  by (simp add: handleSubmit_def flip_sources_def Let_def cong: result.case_cong)

text \<open>The steps a submit has gone through when it reports success.\<close>

lemma handleSubmit_steps:
  assumes run: "handleSubmit env st d = (Created, d')"
  shows "\<exists>uid d1 d2. auth_user env = User uid \<and> invoiceItems st \<noteq> [] \<and>
     insert_invoice (today env) (invoice_row env st uid) d = Ok d1 \<and>
     insert_invoice_items (invoiceItemsData env st) d1 = Ok d2 \<and>
     d' = flip_sources env st d2"
proof -
  from run obtain uid where uid: "auth_user env = User uid"
    by (cases "auth_user env") (simp_all add: handleSubmit_def)
  note hs = handleSubmit_user[OF uid, of st d]
  have sel: "\<not> (selectedPropertyId st = None \<or> selectedUnitId st = None \<or> selectedTenant st = None)"
    using run unfolding hs by (simp split: if_splits)
  have ne: "invoiceItems st \<noteq> []"
    using run sel unfolding hs by (simp split: if_splits)
  let ?r1 = "request (invoice_request_fails env) (insert_invoice (today env) (invoice_row env st uid)) d"
  obtain d1 where r1: "?r1 = Ok d1"
    using run sel ne unfolding hs by (cases ?r1) simp_all
  let ?r2 = "request (items_request_fails env) (insert_invoice_items (invoiceItemsData env st)) d1"
  obtain d2 where r2: "?r2 = Ok d2"
    using run sel ne r1 unfolding hs by (cases ?r2) simp_all
  have "d' = flip_sources env st d2"
    using run sel ne r1 r2 unfolding hs by (simp add: flip_sources_def)
  with uid ne request_ok[OF r1] request_ok[OF r2] show ?thesis by blast
qed

text \<open>
  The item insert of a submit, after its invoice insert: the trigger finds the invoice row in
  step with the new items already, and leaves it as the client wrote it.
\<close>

lemma submit_items_insert:
  assumes d1: "insert_invoice (today env) (invoice_row env st uid) d = Ok d1"
    and d2: "insert_invoice_items (invoiceItemsData env st) d1 = Ok d2"
    and con: "constraints_hold d"
  shows "d2 = d1\<lparr>invoice_items := invoice_items d1 @ invoiceItemsData env st\<rparr>"
    and "totals_ok d2 (new_invoice_id env)"
proof -
  let ?i = "new_invoice_id env"
  let ?rows = "invoiceItemsData env st"
  have num: "invoice_number (invoice_row env st uid) = None"
    by (simp add: invoice_row_def Let_def)
  from insert_invoice_ok[OF d1 num] obtain n where
    inv1: "invoices d1 = invoices d @ [(invoice_row env st uid)\<lparr>invoice_number := Some n\<rparr>]" and
    fresh: "inv_id (invoice_row env st uid) \<notin> set (map inv_id (invoices d))" and
    same1: "invoice_items d1 = invoice_items d"
    by blast
  have idrow: "inv_id (invoice_row env st uid) = ?i" by (simp add: invoice_row_def Let_def)
  let ?d1' = "d1\<lparr>invoice_items := invoice_items d1 @ ?rows\<rparr>"
  have other: "\<forall>r\<in>set (invoices d). inv_id r \<noteq> ?i"
    using fresh idrow by (metis image_eqI list.set_map)
  have old: "list_all (\<lambda>r. item_invoice_id r \<noteq> Some ?i) (invoice_items d)"
    using con other by (force simp: constraints_hold_def list_all_iff invoice_exists_def)
  have sum: "active_item_sum ?d1' ?i = sum_list (map d_amount (invoiceItems st))"
    using sum_none[OF old] sum_all_active[OF items_data_props(1)[of env st]]
    by (simp add: active_item_sum_def same1 items_data_props(2))
  have new_ok: "subtotal (invoice_row env st uid) = sum_list (map d_amount (invoiceItems st))"
    "total_amount (invoice_row env st uid) = subtotal (invoice_row env st uid) + tax_amount (invoice_row env st uid)"
    by (simp_all add: invoice_row_def Let_def calculateTotals_subtotal calculateTotals_total)
  have ok: "totals_ok ?d1' ?i"
    using other sum new_ok by (simp add: totals_ok_def list_all_iff inv1)
  have "d2 = fire_item_triggers INSERT (map (\<lambda>r. (Some r, None)) ?rows) ?d1'"
    using d2 by (simp add: insert_invoice_items_def split: if_splits)
  also have "\<dots> = ?d1'"
    using items_data_props(1)[of env st] by (intro fire_idle[OF ok]) (simp add: list_all_iff)
  finally show "d2 = ?d1'" .
  with ok show "totals_ok d2 ?i" by simp
qed

text \<open>The state a successful submit leaves.\<close>

lemma handleSubmit_created:
  assumes run: "handleSubmit env st d = (Created, d')" and con: "constraints_hold d"
  shows "\<exists>uid n. auth_user env = User uid \<and>
     invoices d' = invoices d @ [(invoice_row env st uid)\<lparr>invoice_number := Some n\<rparr>] \<and>
     invoice_items d' = invoice_items d @ invoiceItemsData env st \<and>
     utilities d' = (if utilityIds st \<noteq> [] \<and> \<not> utilities_request_fails env
                     then mark_invoiced (utilityIds st) (utilities d) else utilities d) \<and>
     deposits d' = (if depositIds st \<noteq> [] \<and> \<not> deposits_request_fails env
                    then mark_invoiced (depositIds st) (deposits d) else deposits d) \<and>
     payments d' = payments d \<and> invoiceItems st \<noteq> []"
proof -
  from handleSubmit_steps[OF run] obtain uid d1 d2 where
    uid: "auth_user env = User uid" and ne: "invoiceItems st \<noteq> []" and
    d1: "insert_invoice (today env) (invoice_row env st uid) d = Ok d1" and
    d2: "insert_invoice_items (invoiceItemsData env st) d1 = Ok d2" and
    d': "d' = flip_sources env st d2"
    by blast
  have num: "invoice_number (invoice_row env st uid) = None"
    by (simp add: invoice_row_def Let_def)
  from insert_invoice_ok[OF d1 num] obtain n where
    inv1: "invoices d1 = invoices d @ [(invoice_row env st uid)\<lparr>invoice_number := Some n\<rparr>]" and
    same1: "invoice_items d1 = invoice_items d" "payments d1 = payments d"
      "utilities d1 = utilities d" "deposits d1 = deposits d"
    by blast
  note d2eq = submit_items_insert(1)[OF d1 d2 con]
  show ?thesis
    using uid ne inv1 same1
    by (intro exI[of _ uid] exI[of _ n]) (simp add: d' d2eq flip_sources_fields)
qed

text \<open>A submit that does not report success has stored no item and flipped no source.\<close>

lemma handleSubmit_not_created:
  assumes "fst (handleSubmit env st d) \<noteq> Created"
  shows "invoice_items (snd (handleSubmit env st d)) = invoice_items d \<and>
         utilities (snd (handleSubmit env st d)) = utilities d \<and>
         deposits (snd (handleSubmit env st d)) = deposits d"
proof (cases "auth_user env")
  case User_error
  then show ?thesis by (simp add: handleSubmit_def)
next
  case No_user
  then show ?thesis by (simp add: handleSubmit_def)
next
  case (User uid)
  note hs = handleSubmit_user[OF User, of st d]
  let ?ins = "insert_invoice (today env) (invoice_row env st uid)"
  let ?r1 = "request (invoice_request_fails env) ?ins d"
  show ?thesis
  proof (cases "selectedPropertyId st = None \<or> selectedUnitId st = None \<or> selectedTenant st = None
                \<or> length (invoiceItems st) = 0")
    case True
    then show ?thesis unfolding hs by auto
  next
    case False
    have f1: "invoice_items (db_after ?r1) = invoice_items d \<and> utilities (db_after ?r1) = utilities d
              \<and> deposits (db_after ?r1) = deposits d"
      using insert_invoice_frame[of "today env" "invoice_row env st uid" d]
      by (simp add: request_def db_after_def)
    show ?thesis
    proof (cases ?r1)
      case (Rollback e d1)
      then show ?thesis unfolding hs using False f1 by (simp add: db_after_def)
    next
      case (Ok d1)
      let ?r2 = "request (items_request_fails env) (insert_invoice_items (invoiceItemsData env st)) d1"
      show ?thesis
      proof (cases ?r2)
        case (Rollback e d2)
        then have "d2 = d1"
          by (auto simp: request_def dest: insert_items_rollback split: if_splits)
        then show ?thesis unfolding hs using False f1 Ok Rollback by (simp add: db_after_def)
      next
        case in2: (Ok d2)
        then have "fst (handleSubmit env st d) = Created" unfolding hs using False Ok by simp
        with assms show ?thesis by simp
      qed
    qed
  qed
qed

lemma mark_invoiced_status:
  "u \<in> set (mark_invoiced ids rows) \<Longrightarrow> Some (src_id u) \<in> set ids \<Longrightarrow> src_status u = invoiced"
  by (auto simp: mark_invoiced_def split: if_splits)

section \<open>The constraints are kept\<close>

lemma active_amounts_nonneg:
  "list_all (\<lambda>it. 0 \<le> amount it) items \<Longrightarrow>
   0 \<le> coalesce_value (sql_sum (active_amounts items k)) 0"
  unfolding coalesce_sql_sum active_amounts_def
  by (intro sum_list_nonneg) (auto simp: list_all_iff)

text \<open>
  When the trigger rewrites an invoice row, the CHECK constraints of invoices are tested on
  the new row. From a state that satisfies the constraints they hold, so that the trigger
  never raises and is the total function it is modelled as.
\<close>

lemma trigger_keeps_checks:
  assumes "constraints_hold d"
  shows "list_all (\<lambda>r. 0 \<le> subtotal r \<and> 0 \<le> tax_amount r \<and> 0 \<le> total_amount r)
           (invoices (update_invoice_totals op new old d))"
proof -
  have items: "list_all (\<lambda>it. 0 \<le> amount it) (invoice_items d)"
    using assms by (auto simp: constraints_hold_def list_all_iff)
  have inv: "list_all (\<lambda>r. 0 \<le> subtotal r \<and> 0 \<le> tax_amount r \<and> 0 \<le> total_amount r) (invoices d)"
    using assms by (simp add: constraints_hold_def)
  note nn = active_amounts_nonneg[OF items]
  show ?thesis
    using inv nn[of "row_invoice_id new"] nn[of "row_invoice_id old"]
    by (cases op) (auto simp: update_invoice_totals_def Let_def update_invoices_def list_all_iff)
qed

lemma trigger_checks_step:
  assumes "list_all (\<lambda>it. 0 \<le> amount it) (invoice_items d)"
    and "list_all (\<lambda>r. 0 \<le> subtotal r \<and> 0 \<le> tax_amount r \<and> 0 \<le> total_amount r) (invoices d)"
  shows "list_all (\<lambda>r. 0 \<le> subtotal r \<and> 0 \<le> tax_amount r \<and> 0 \<le> total_amount r)
           (invoices (update_invoice_totals op new old d))"
  using assms(2) active_amounts_nonneg[OF assms(1), of "row_invoice_id new"]
    active_amounts_nonneg[OF assms(1), of "row_invoice_id old"]
  by (cases op) (auto simp: update_invoice_totals_def Let_def update_invoices_def list_all_iff)

lemma fire_checks:
  assumes "list_all (\<lambda>it. 0 \<le> amount it) (invoice_items d)"
    and "list_all (\<lambda>r. 0 \<le> subtotal r \<and> 0 \<le> tax_amount r \<and> 0 \<le> total_amount r) (invoices d)"
  shows "list_all (\<lambda>r. 0 \<le> subtotal r \<and> 0 \<le> tax_amount r \<and> 0 \<le> total_amount r)
           (invoices (fire_item_triggers op rows d))"
  using assms unfolding fire_item_triggers_def
proof (induction rows arbitrary: d)
  case Nil
  then show ?case by simp
next
  case (Cons x xs)
  show ?case
    using Cons.IH[of "update_invoice_totals op (fst x) (snd x) d"] Cons.prems
      trigger_checks_step[OF Cons.prems, of op "fst x" "snd x"]
    by (simp add: case_prod_unfold)
qed

lemma fire_other_tables:
  "utilities (fire_item_triggers op rows d) = utilities d"
  "deposits (fire_item_triggers op rows d) = deposits d"
  "invoice_number_seq (fire_item_triggers op rows d) = invoice_number_seq d"
  unfolding fire_item_triggers_def
  by (induction rows arbitrary: d;
      simp add: update_invoice_totals_def Let_def update_invoices_def case_prod_unfold)+

text \<open>The constraints are an invariant of the item statements.\<close>

lemma item_event_keeps_constraints:
  assumes "constraints_hold d"
  shows "constraints_hold (db_after (exec_item_event d e))"
proof -
  have key: "constraints_hold (fire_item_triggers op rows d1)"
    if "invoices d1 = invoices d" "payments d1 = payments d"
      "list_all (\<lambda>it. 0 \<le> amount it \<and> invoice_exists d (item_invoice_id it)) (invoice_items d1)"
      "distinct (map item_id (invoice_items d1))" for op rows d1
  proof -
    let ?d' = "fire_item_triggers op rows d1"
    have ids: "map inv_id (invoices ?d') = map inv_id (invoices d)"
      by (simp add: fire_frame(3) that(1))
    then have ex: "invoice_exists ?d' k = invoice_exists d k" for k
      by (simp add: invoice_exists_def split: option.splits)
    have "list_all (\<lambda>it. 0 \<le> amount it) (invoice_items d1)"
      using that(3) by (auto simp: list_all_iff)
    moreover have "list_all (\<lambda>r. 0 \<le> subtotal r \<and> 0 \<le> tax_amount r \<and> 0 \<le> total_amount r) (invoices d1)"
      using assms that(1) by (simp add: constraints_hold_def)
    ultimately have "list_all (\<lambda>r. 0 \<le> subtotal r \<and> 0 \<le> tax_amount r \<and> 0 \<le> total_amount r) (invoices ?d')"
      by (rule fire_checks)
    then show ?thesis
      using assms that ids
      by (simp add: constraints_hold_def ex fire_frame(4))
  qed
  show ?thesis
  proof (cases e)
    case (Insert_items rows)
    show ?thesis
    proof (cases "insert_invoice_items rows d")
      case (Rollback err d')
      then have "d' = d" by (auto simp: insert_invoice_items_def split: if_splits)
      with Rollback Insert_items assms show ?thesis by (simp add: db_after_def)
    next
      case (Ok d')
      then have d': "d' = fire_item_triggers INSERT (map (\<lambda>r. (Some r, None)) rows)
                      (d\<lparr>invoice_items := invoice_items d @ rows\<rparr>)"
        and c: "\<not> list_ex (\<lambda>r. amount r < 0) rows"
          "distinct (map item_id (invoice_items d @ rows))"
          "\<not> list_ex (\<lambda>r. \<not> invoice_exists d (item_invoice_id r)) rows"
        by (auto simp: insert_invoice_items_def split: if_splits)
      have "list_all (\<lambda>it. 0 \<le> amount it \<and> invoice_exists d (item_invoice_id it)) (invoice_items d @ rows)"
        using assms c(1,3) by (auto simp: constraints_hold_def list_all_iff list_ex_iff not_less)
      then have "constraints_hold d'"
        unfolding d' using c(2) by (intro key) simp_all
      with Ok Insert_items show ?thesis by (simp add: db_after_def)
    qed
  next
    case (Set_status iid st)
    let ?f = "\<lambda>r. if item_id r = iid then r\<lparr>item_state := st\<rparr> else r"
    have "map item_id (map ?f xs) = map item_id xs" for xs :: "invoice_item list"
      by (induction xs) auto
    then have "distinct (map item_id (map ?f (invoice_items d)))"
      using assms by (simp only: constraints_hold_def)
    moreover have "list_all (\<lambda>it. 0 \<le> amount it \<and> invoice_exists d (item_invoice_id it))
        (map ?f (invoice_items d))"
      using assms by (auto simp: constraints_hold_def list_all_iff)
    ultimately have "constraints_hold (update_item_status (\<lambda>r. item_id r = iid) st d)"
      unfolding update_item_status_def by (intro key) simp_all
    with Set_status show ?thesis by (simp add: db_after_def)
  next
    case (Delete_item iid)
    have "list_all (\<lambda>it. 0 \<le> amount it \<and> invoice_exists d (item_invoice_id it))
        (filter (\<lambda>r. item_id r \<noteq> iid) (invoice_items d))"
      using assms by (auto simp: constraints_hold_def list_all_iff)
    moreover have "distinct (map item_id (filter (\<lambda>r. item_id r \<noteq> iid) (invoice_items d)))"
      using assms by (simp add: constraints_hold_def distinct_map_filter)
    ultimately have "constraints_hold (delete_invoice_item iid d)"
      unfolding delete_invoice_item_def by (intro key) simp_all
    with Delete_item show ?thesis by (simp add: db_after_def)
  qed
qed

lemma invoice_exists_cong:
  assumes "map inv_id (invoices d') = map inv_id (invoices d)"
  shows "invoice_exists d' k = invoice_exists d k"
proof -
  have "inv_id ` set (invoices d') = inv_id ` set (invoices d)"
    using assms by (metis list.set_map)
  then show ?thesis by (simp add: invoice_exists_def split: option.splits)
qed

lemma status_update_checks:
  "list_all (\<lambda>r. 0 \<le> subtotal r \<and> 0 \<le> tax_amount r \<and> 0 \<le> total_amount r)
     (map (\<lambda>r. if Q r then r\<lparr>inv_status := s\<rparr> else r) rs) =
   list_all (\<lambda>r. 0 \<le> subtotal r \<and> 0 \<le> tax_amount r \<and> 0 \<le> total_amount r) rs"
  by (induction rs) auto

lemma payment_trigger_invoices:
  "map inv_id (invoices (update_invoice_status new d)) = map inv_id (invoices d)"
  "list_all (\<lambda>r. 0 \<le> subtotal r \<and> 0 \<le> tax_amount r \<and> 0 \<le> total_amount r)
     (invoices (update_invoice_status new d)) =
   list_all (\<lambda>r. 0 \<le> subtotal r \<and> 0 \<le> tax_amount r \<and> 0 \<le> total_amount r) (invoices d)"
  by (simp_all add: update_invoice_status_def Let_def update_invoices_def comp_def
      status_update_checks)

lemma payment_trigger_keeps_constraints:
  "constraints_hold d \<Longrightarrow> constraints_hold (update_invoice_status new d)"
  by (simp add: constraints_hold_def payment_trigger_invoices payment_trigger_frame
      invoice_exists_cong[OF payment_trigger_invoices(1)])

text \<open>The constraints are an invariant of the payment statements.\<close>

lemma payment_event_keeps_constraints:
  assumes "constraints_hold d"
  shows "constraints_hold (db_after (exec_payment_event d ev))"
proof (cases ev)
  case (Insert_payment p)
  show ?thesis
  proof (cases "insert_payment p d")
    case (Rollback err d')
    then have "d' = d" by (auto simp: insert_payment_def split: if_splits)
    with Rollback Insert_payment assms show ?thesis by (simp add: db_after_def)
  next
    case (Ok d')
    then have d': "d' = update_invoice_status p (d\<lparr>payments := payments d @ [p]\<rparr>)"
      and c: "0 < pay_amount p" "pay_id p \<notin> set (map pay_id (payments d))"
        "invoice_exists d (pay_invoice_id p)"
      by (auto simp: insert_payment_def split: if_splits)
    have "invoice_exists (d\<lparr>payments := payments d @ [p]\<rparr>) k = invoice_exists d k" for k
      by (intro invoice_exists_cong) simp
    then have "constraints_hold (d\<lparr>payments := payments d @ [p]\<rparr>)"
      using assms c by (simp add: constraints_hold_def)
    then show ?thesis
      using Ok Insert_payment by (simp add: db_after_def d' payment_trigger_keeps_constraints)
  qed
next
  case (Update_payment pid a s)
  let ?set = "\<lambda>p::payment. p\<lparr>pay_amount := a, pay_status := s\<rparr>"
  let ?d1 = "d\<lparr>payments := map (\<lambda>p. if pay_id p = pid then ?set p else p) (payments d)\<rparr>"
  have fold_ok: "constraints_hold (fold update_invoice_status ps e)" if "constraints_hold e"
    for ps e
    using that by (induction ps arbitrary: e) (simp_all add: payment_trigger_keeps_constraints)
  show ?thesis
  proof (cases "update_payment pid a s d")
    case (Rollback err d')
    then have "d' = d" by (auto simp: update_payment_def Let_def split: if_splits)
    with Rollback Update_payment assms show ?thesis by (simp add: db_after_def)
  next
    case (Ok d')
    then have d': "d' = fold update_invoice_status
                      (map ?set (filter (\<lambda>p. pay_id p = pid) (payments d))) ?d1"
      and c: "filter (\<lambda>p. pay_id p = pid) (payments d) = [] \<or> 0 < a"
      by (auto simp: update_payment_def Let_def split: if_splits)
    have ids: "map pay_id (map (\<lambda>p. if pay_id p = pid then ?set p else p) xs) = map pay_id xs"
      for xs :: "payment list"
      by (induction xs) auto
    have "list_all (\<lambda>p. 0 < pay_amount p \<and> invoice_exists d (pay_invoice_id p))
            (map (\<lambda>p. if pay_id p = pid then ?set p else p) (payments d))"
      using assms c by (auto simp: constraints_hold_def list_all_iff filter_empty_conv)
    moreover have "invoice_exists ?d1 k = invoice_exists d k" for k
      by (intro invoice_exists_cong) simp
    moreover have "distinct (map pay_id (payments ?d1))"
      using assms ids[of "payments d"] by (simp add: constraints_hold_def del: map_map)
    ultimately have "constraints_hold ?d1"
      using assms by (simp add: constraints_hold_def del: map_map)
    then show ?thesis
      using Ok Update_payment by (simp add: db_after_def d' fold_ok)
  qed
qed

lemma set_invoice_number_tables:
  assumes "set_invoice_number day new d = (a, d0)"
  shows "invoices d0 = invoices d" "invoice_items d0 = invoice_items d" "payments d0 = payments d"
  using assms
  by (auto simp: set_invoice_number_def generate_invoice_number_def nextval_def split: if_splits)

lemma insert_invoice_keeps_constraints:
  assumes "constraints_hold d"
  shows "constraints_hold (db_after (insert_invoice day new d))"
proof -
  obtain a d0 where sn: "set_invoice_number day new d = (a, d0)"
    by (cases "set_invoice_number day new d")
  note t = set_invoice_number_tables[OF sn]
  have ex0: "invoice_exists d0 k = invoice_exists d k" for k
    by (intro invoice_exists_cong) (simp add: t)
  have c0: "constraints_hold d0"
    using assms by (simp add: constraints_hold_def t ex0)
  show ?thesis
  proof (cases a)
    case (Inl e)
    then show ?thesis using c0 by (simp add: insert_invoice_def sn db_after_def)
  next
    case (Inr row)
    let ?d1 = "d0\<lparr>invoices := invoices d0 @ [row]\<rparr>"
    have grow: "invoice_exists d0 k \<Longrightarrow> invoice_exists ?d1 k" for k
      by (auto simp: invoice_exists_def split: option.splits)
    have "constraints_hold ?d1"
      if "0 \<le> subtotal row" "0 \<le> tax_amount row" "0 \<le> total_amount row"
        "inv_id row \<notin> set (map inv_id (invoices d0))"
      using c0 that grow by (auto simp: constraints_hold_def list_all_iff)
    then show ?thesis
      using c0 Inr by (simp add: insert_invoice_def sn db_after_def not_less)
  qed
qed

text \<open>
  The constraints are an invariant of a submit, whatever its outcome: the hypothesis of the
  statements below holds in every state the modelled statements can reach from one in which
  it holds.
\<close>

lemma handleSubmit_keeps_constraints:
  assumes "constraints_hold d"
  shows "constraints_hold (snd (handleSubmit env st d))"
proof (cases "auth_user env")
  case User_error
  then show ?thesis using assms by (simp add: handleSubmit_def)
next
  case No_user
  then show ?thesis using assms by (simp add: handleSubmit_def)
next
  case (User uid)
  note hs = handleSubmit_user[OF User, of st d]
  let ?ins = "insert_invoice (today env) (invoice_row env st uid)"
  let ?r1 = "request (invoice_request_fails env) ?ins d"
  have c1: "constraints_hold (db_after ?r1)"
    using assms insert_invoice_keeps_constraints[OF assms, of "today env" "invoice_row env st uid"]
    by (simp add: request_def db_after_def)
  show ?thesis
  proof (cases "selectedPropertyId st = None \<or> selectedUnitId st = None \<or> selectedTenant st = None
                \<or> length (invoiceItems st) = 0")
    case True
    then show ?thesis unfolding hs using assms by auto
  next
    case False
    show ?thesis
    proof (cases ?r1)
      case (Rollback e d1)
      then show ?thesis unfolding hs using False c1 by (auto simp: db_after_def)
    next
      case (Ok d1)
      then have cd1: "constraints_hold d1" using c1 by (simp add: db_after_def)
      let ?r2 = "request (items_request_fails env) (insert_invoice_items (invoiceItemsData env st)) d1"
      have c2: "constraints_hold (db_after ?r2)"
        using cd1 item_event_keeps_constraints[OF cd1, of "Insert_items (invoiceItemsData env st)"]
        by (simp add: request_def db_after_def)
      show ?thesis
      proof (cases ?r2)
        case (Rollback e d2)
        then show ?thesis unfolding hs using False Ok c2 by (auto simp: db_after_def)
      next
        case in2: (Ok d2)
        then have cd2: "constraints_hold d2" using c2 by (simp add: db_after_def)
        have "invoice_exists (flip_sources env st d2) k = invoice_exists d2 k" for k
          by (intro invoice_exists_cong) (simp add: flip_sources_fields)
        then have "constraints_hold (flip_sources env st d2)"
          using cd2 by (simp add: constraints_hold_def flip_sources_fields)
        then show ?thesis unfolding hs using False Ok in2 by auto
      qed
    qed
  qed
qed

section \<open>The examples, evaluated\<close>

lemmas submit_eval =
  handleSubmit_def request_def insert_invoice_def set_invoice_number_def
  generate_invoice_number_def nextval_def lpad_def show_nat_1 invoice_row_def calculateTotals_def
  invoiceItemsData_def insert_invoice_items_def invoice_exists_def fire_item_triggers_def
  update_invoice_totals_def update_invoices_def id_is_def row_invoice_id_def coalesce_def
  coalesce_value_def sql_sum_def active_amounts_def utilityIds_def depositIds_def
  update_utilities_def update_deposits_def mark_invoiced_def db_after_def numeral_3_eq_3

lemma ex_submit:
  "handleSubmit ex_env ex_form ex_db_empty =
     (Created, ex_db\<lparr>utilities := [ex_reading\<lparr>src_status := invoiced\<rparr>]\<rparr>)"
  by (simp add: submit_eval ex_env_def ex_form_def ex_db_empty_def ex_db_def ex_invoice_def
      ex_rent_def ex_water_def ex_reading_def)


lemma ex_submit_negative:
  "handleSubmit ex_env ex_form_negative ex_db_negative =
     (Failure_alert,
      ex_db_negative\<lparr>invoices := [ex_invoice\<lparr>subtotal := 950, tax_amount := 152, total_amount := 1102\<rparr>],
                     invoice_number_seq := 1\<rparr>)"
  by (simp add: submit_eval ex_env_def ex_form_def ex_form_negative_def ex_db_negative_def
      ex_db_empty_def ex_db_def ex_invoice_def ex_rent_def ex_water_def ex_reading_def)

lemma ex_submit_update_lost:
  "handleSubmit (ex_env\<lparr>utilities_request_fails := True\<rparr>) ex_form ex_db_empty = (Created, ex_db)"
  by (simp add: submit_eval ex_env_def ex_form_def ex_db_empty_def ex_db_def ex_invoice_def
      ex_rent_def ex_water_def ex_reading_def)

lemma ex_db_empty_constraints: "constraints_hold ex_db_empty"
  by (simp add: constraints_hold_def ex_db_empty_def)

lemma ex_db_1000_constraints: "constraints_hold ex_db_1000"
  by (simp add: constraints_hold_def ex_db_1000_def ex_invoice_1000_def)

lemma ex_pay_400:
  "exec_payment_event ex_db_1000 (Insert_payment (ex_payment 21 32 400)) =
     Ok (ex_db_1000\<lparr>invoices := [ex_invoice_1000\<lparr>inv_status := partially_paid\<rparr>],
                    payments := [ex_payment 21 32 400]\<rparr>)"
  by (simp add: insert_payment_def ex_payment_def ex_db_1000_def
        ex_invoice_1000_def invoice_exists_def update_invoice_status_def Let_def
        select_total_amount_def id_is_def confirmed_amounts_def sql_sum_def coalesce_value_def
        sql_ge_def update_invoices_def)

lemma ex_delete_rent:
  "invoices (delete_invoice_item 10 ex_db_rent_only) =
     [ex_invoice\<lparr>subtotal := 0, tax_amount := 160, total_amount := 160\<rparr>]"
  by (simp add: delete_invoice_item_def ex_db_rent_only_def ex_rent_def ex_invoice_def
      fire_item_triggers_def update_invoice_totals_def update_invoices_def id_is_def
      row_invoice_id_def coalesce_def coalesce_value_def sql_sum_def active_amounts_def)

lemma ex_cancelled_constraints: "constraints_hold ex_db_cancelled"
  by (simp add: constraints_hold_def ex_db_cancelled_def ex_invoice_def cancel_def ex_rent_def
      ex_water_def invoice_exists_def)

lemma ex_cancelled_payment:
  "insert_payment (ex_payment 21 31 100) ex_db_cancelled =
     Ok (ex_db_cancelled\<lparr>invoices := [(cancel ex_invoice)\<lparr>inv_status := paid\<rparr>],
                         payments := [ex_payment 21 31 100]\<rparr>)"
  by (simp add: insert_payment_def ex_payment_def ex_db_cancelled_def cancel_def
        ex_invoice_def invoice_exists_def update_invoice_status_def Let_def
        select_total_amount_def id_is_def confirmed_amounts_def sql_sum_def coalesce_value_def
        sql_ge_def update_invoices_def)

section \<open>The properties of the specification\<close>

subsection \<open>C1\<close>

text \<open>
  C1. Take any database and any run of item statements (inserts of one or more items,
  switches of an item between active and void, deletes), each statement with its trigger
  calls. Every invoice that one of the statements touched, and every invoice that was in
  step before the run, is in step after it: each of its rows has as subtotal the sum of
  the amounts of its active items, and as total_amount its subtotal plus its tax_amount.
\<close>

theorem totals_invariant:
  "i \<in> touched d es \<or> totals_ok d i \<Longrightarrow> totals_ok (run_item_events d es) i"
proof (induction es arbitrary: d)
  case Nil
  then show ?case by simp
next
  case (Cons e es)
  show ?case
  proof (cases "i \<in> touched_by d e \<or> totals_ok d i")
    case True
    then have "totals_ok (db_after (exec_item_event d e)) i" by (rule event_step)
    then show ?thesis using Cons.IH by simp
  next
    case False
    with Cons.prems have "i \<in> touched (db_after (exec_item_event d e)) es" by simp
    then show ?thesis using Cons.IH by simp
  qed
qed

text \<open>
  The invoice of the example starts out of step (no items yet, subtotal 1150); the run
  inserts both items, voids the water item, deletes the rent and activates the water item
  again.
\<close>

theorem totals_invariant_witness:
  "31 \<in> touched ex_db_no_items ex_events \<and> totals_ok (run_item_events ex_db_no_items ex_events) 31"
proof -
  have h: "31 \<in> touched ex_db_no_items ex_events"
    by (simp add: ex_events_def ex_db_no_items_def ex_invoice_def ex_rent_def ex_water_def
        succeeded_def insert_invoice_items_def parents_def invoice_exists_def)
  then show ?thesis using totals_invariant [of 31 ex_db_no_items ex_events] by simp
qed

subsection \<open>C2\<close>

text \<open>
  C2. Take a payment statement that succeeds (the insert of a payment, or an update of the
  amount and status of a payment) on a database that satisfies its constraints, and the
  row \<open>new\<close> the trigger was called with. If \<open>new\<close> has no invoice_id, the invoices are as
  they were. Otherwise let total_paid be the sum of the confirmed payments against that
  invoice after the statement: total_paid \<ge> total_amount sets the status of the invoice to
  paid, total_paid < total_amount sets it to partially_paid, and nothing else of any invoice
  changes. total_paid is positive after every such statement, the new row being one of the
  payments, so the case total_paid = 0 does not arise after a statement; the trigger itself,
  called where no confirmed payment stands against an invoice with a positive total,
  changes nothing. Payments of 600 and 500 against a total of 1000 are both accepted, and
  the status is then paid.
\<close>

theorem payment_status_rules:
  assumes ok: "exec_payment_event d ev = Ok d'" and new: "new_rows d ev = [new]"
    and con: "constraints_hold d"
  shows "(pay_invoice_id new = None \<longrightarrow> invoices d' = invoices d) \<and>
     (\<forall>r\<in>set (invoices d). pay_invoice_id new = Some (inv_id r) \<longrightarrow>
        0 < total_paid d' (inv_id r) \<and>
        (total_amount r \<le> total_paid d' (inv_id r) \<longrightarrow>
           invoices d' = with_status (inv_id r) paid (invoices d)) \<and>
        (total_paid d' (inv_id r) < total_amount r \<longrightarrow>
           invoices d' = with_status (inv_id r) partially_paid (invoices d))) \<and>
     (\<forall>r\<in>set (invoices d). pay_invoice_id new = Some (inv_id r) \<and>
        total_paid d (inv_id r) = 0 \<and> 0 < total_amount r \<longrightarrow> update_invoice_status new d = d) \<and>
     succeeded (insert_payment (ex_payment 21 32 600) ex_db_1000) \<and>
     succeeded (insert_payment (ex_payment 22 32 500)
        (db_after (insert_payment (ex_payment 21 32 600) ex_db_1000))) \<and>
     map inv_status (invoices (db_after (insert_payment (ex_payment 22 32 500)
        (db_after (insert_payment (ex_payment 21 32 600) ex_db_1000))))) = [paid]"
proof -
  from event_as_trigger[OF ok new con] obtain d1 where
    d1: "d' = update_invoice_status new d1" "invoices d1 = invoices d"
      "new \<in> set (payments d1)" "list_all (\<lambda>p. 0 < pay_amount p) (payments d1)"
    by blast
  have dist: "distinct (map inv_id (invoices d1))"
    using con d1(2) by (simp add: constraints_hold_def)
  have tp: "total_paid d' i = total_paid d1 i" for i
    by (simp add: d1(1) total_paid_def)
  have a: "pay_invoice_id new = None \<longrightarrow> invoices d' = invoices d"
    by (simp add: d1 payment_trigger_no_invoice)
  have b: "0 < total_paid d' (inv_id r) \<and>
        (total_amount r \<le> total_paid d' (inv_id r) \<longrightarrow>
           invoices d' = with_status (inv_id r) paid (invoices d)) \<and>
        (total_paid d' (inv_id r) < total_amount r \<longrightarrow>
           invoices d' = with_status (inv_id r) partially_paid (invoices d))"
    if r: "r \<in> set (invoices d)" and n: "pay_invoice_id new = Some (inv_id r)" for r
  proof -
    have pos: "0 < total_paid d1 (inv_id r)"
      unfolding total_paid_def using total_paid_pos[OF d1(4) d1(3) n] .
    have "invoices d' =
       (if total_amount r \<le> total_paid d1 (inv_id r) then with_status (inv_id r) paid (invoices d1)
        else if 0 < total_paid d1 (inv_id r) then with_status (inv_id r) partially_paid (invoices d1)
        else invoices d1)"
      unfolding d1(1) using r d1(2) by (intro payment_trigger_effect[OF dist _ n]) simp
    with pos show ?thesis by (simp add: tp d1(2))
  qed
  have c: "succeeded (insert_payment (ex_payment 21 32 600) ex_db_1000)"
    by (simp add: succeeded_def insert_payment_def ex_payment_def ex_db_1000_def
        ex_invoice_1000_def invoice_exists_def)
  have d: "succeeded (insert_payment (ex_payment 22 32 500) (db_after (insert_payment (ex_payment 21 32 600) ex_db_1000))) \<and>
     map inv_status (invoices (db_after (insert_payment (ex_payment 22 32 500)
        (db_after (insert_payment (ex_payment 21 32 600) ex_db_1000))))) = [paid]"
    by (simp add: succeeded_def db_after_def insert_payment_def ex_payment_def ex_db_1000_def
        ex_invoice_1000_def invoice_exists_def update_invoice_status_def Let_def
        select_total_amount_def id_is_def confirmed_amounts_def sql_sum_def coalesce_value_def
        sql_ge_def update_invoices_def)
  have e: "update_invoice_status new d = d"
    if "r \<in> set (invoices d)" "pay_invoice_id new = Some (inv_id r)"
      "total_paid d (inv_id r) = 0" "0 < total_amount r" for r
    using con that by (intro payment_trigger_nothing_paid[of d r]) (simp_all add: constraints_hold_def)
  from a b c d e show ?thesis by blast
qed

text \<open>
  A payment of 400 against the invoice of 1000.
\<close>

theorem payment_status_rules_witness:
  "constraints_hold ex_db_1000 \<and>
   new_rows ex_db_1000 (Insert_payment (ex_payment 21 32 400)) = [ex_payment 21 32 400] \<and>
   succeeded (exec_payment_event ex_db_1000 (Insert_payment (ex_payment 21 32 400))) \<and>
   total_paid (db_after (exec_payment_event ex_db_1000 (Insert_payment (ex_payment 21 32 400)))) 32 = 400 \<and>
   invoices (db_after (exec_payment_event ex_db_1000 (Insert_payment (ex_payment 21 32 400)))) =
     with_status 32 partially_paid (invoices ex_db_1000)"
proof -
  let ?d' = "ex_db_1000\<lparr>invoices := [ex_invoice_1000\<lparr>inv_status := partially_paid\<rparr>],
                    payments := [ex_payment 21 32 400]\<rparr>"
  have new: "new_rows ex_db_1000 (Insert_payment (ex_payment 21 32 400)) = [ex_payment 21 32 400]"
    by simp
  have tp: "total_paid ?d' 32 = 400"
    by (simp add: total_paid_def ex_payment_def)
  have r: "ex_invoice_1000 \<in> set (invoices ex_db_1000)" "inv_id ex_invoice_1000 = 32"
    "total_amount ex_invoice_1000 = 1000"
    by (simp_all add: ex_db_1000_def ex_invoice_1000_def)
  have pid: "pay_invoice_id (ex_payment 21 32 400) = Some (inv_id ex_invoice_1000)"
    by (simp add: ex_payment_def r)
  from payment_status_rules [OF ex_pay_400 new ex_db_1000_constraints]
  have "\<forall>r\<in>set (invoices ex_db_1000). pay_invoice_id (ex_payment 21 32 400) = Some (inv_id r) \<longrightarrow>
          (total_paid ?d' (inv_id r) < total_amount r \<longrightarrow>
             invoices ?d' = with_status (inv_id r) partially_paid (invoices ex_db_1000))"
    by blast
  from bspec[OF this r(1)] pid have
    "total_paid ?d' (inv_id ex_invoice_1000) < total_amount ex_invoice_1000 \<longrightarrow>
       invoices ?d' = with_status (inv_id ex_invoice_1000) partially_paid (invoices ex_db_1000)"
    by blast
  then have inv: "invoices ?d' = with_status 32 partially_paid (invoices ex_db_1000)"
    by (simp add: r tp)
  show ?thesis
    unfolding ex_pay_400 succeeded_def db_after_def result.case
    using ex_db_1000_constraints tp inv by simp
qed

subsection \<open>C3\<close>




subsection \<open>C4\<close>

text \<open>
  C4, amended. \<open>handleSubmit\<close> sends its requests one after the other, with no transaction
  around them. A submit that does not report success has stored no item and flipped no
  utility or deposit record (the invoice row may have been stored all the same). A submit
  that reports success, from a database that satisfies its constraints, has stored the items,
  and every utility record referenced by an item of type utility, and every deposit record
  referenced by an item of type deposit, reads invoiced, provided the status update
  concerned reached the server: its outcome is not looked at.
\<close>

theorem creation_steps:
  "(fst (handleSubmit env st d) \<noteq> Created \<longrightarrow>
      invoice_items (snd (handleSubmit env st d)) = invoice_items d \<and>
      utilities (snd (handleSubmit env st d)) = utilities d \<and>
      deposits (snd (handleSubmit env st d)) = deposits d) \<and>
   (handleSubmit env st d = (Created, d') \<and> constraints_hold d \<longrightarrow>
      invoice_items d' = invoice_items d @ invoiceItemsData env st \<and>
      (\<forall>item\<in>set (invoiceItems st). \<forall>u\<in>set (utilities d').
          d_type item = utility \<and> d_reference_id item = Some (src_id u) \<and>
          \<not> utilities_request_fails env \<longrightarrow> src_status u = invoiced) \<and>
      (\<forall>item\<in>set (invoiceItems st). \<forall>u\<in>set (deposits d').
          d_type item = deposit \<and> d_reference_id item = Some (src_id u) \<and>
          \<not> deposits_request_fails env \<longrightarrow> src_status u = invoiced))"
proof -
  have b: "invoice_items d' = invoice_items d @ invoiceItemsData env st \<and>
      (\<forall>item\<in>set (invoiceItems st). \<forall>u\<in>set (utilities d').
          d_type item = utility \<and> d_reference_id item = Some (src_id u) \<and>
          \<not> utilities_request_fails env \<longrightarrow> src_status u = invoiced) \<and>
      (\<forall>item\<in>set (invoiceItems st). \<forall>u\<in>set (deposits d').
          d_type item = deposit \<and> d_reference_id item = Some (src_id u) \<and>
          \<not> deposits_request_fails env \<longrightarrow> src_status u = invoiced)"
    if run: "handleSubmit env st d = (Created, d')" and con: "constraints_hold d"
  proof -
    from handleSubmit_created[OF run con] have
      items: "invoice_items d' = invoice_items d @ invoiceItemsData env st" and
      ut: "utilities d' = (if utilityIds st \<noteq> [] \<and> \<not> utilities_request_fails env
                     then mark_invoiced (utilityIds st) (utilities d) else utilities d)" and
      de: "deposits d' = (if depositIds st \<noteq> [] \<and> \<not> deposits_request_fails env
                    then mark_invoiced (depositIds st) (deposits d) else deposits d)"
      by blast+
    have u: "src_status u = invoiced"
      if "item \<in> set (invoiceItems st)" "u \<in> set (utilities d')" "d_type item = utility"
        "d_reference_id item = Some (src_id u)" "\<not> utilities_request_fails env" for item u
    proof -
      have "Some (src_id u) \<in> set (utilityIds st)"
        using that(1,3,4) by (force simp: utilityIds_def)
      moreover from this have "utilityIds st \<noteq> []" by auto
      ultimately show ?thesis using that(2,5) ut by (auto dest: mark_invoiced_status)
    qed
    have v: "src_status u = invoiced"
      if "item \<in> set (invoiceItems st)" "u \<in> set (deposits d')" "d_type item = deposit"
        "d_reference_id item = Some (src_id u)" "\<not> deposits_request_fails env" for item u
    proof -
      have "Some (src_id u) \<in> set (depositIds st)"
        using that(1,3,4) by (force simp: depositIds_def)
      moreover from this have "depositIds st \<noteq> []" by auto
      ultimately show ?thesis using that(2,5) de by (auto dest: mark_invoiced_status)
    qed
    from items u v show ?thesis by blast
  qed
  from handleSubmit_not_created[of env st d] b show ?thesis by blast
qed

text \<open>
  The submit of the example flips reading 40 from saved to invoiced; the submit with the
  negative reading fails and leaves the reading as it was.
\<close>

theorem creation_steps_witness:
  "constraints_hold ex_db_empty \<and>
   handleSubmit ex_env ex_form ex_db_empty =
     (Created, ex_db\<lparr>utilities := [ex_reading\<lparr>src_status := invoiced\<rparr>]\<rparr>) \<and>
   map src_status (utilities ex_db_empty) = [saved] \<and>
   invoice_items (ex_db\<lparr>utilities := [ex_reading\<lparr>src_status := invoiced\<rparr>]\<rparr>) =
     invoice_items ex_db_empty @ invoiceItemsData ex_env ex_form \<and>
   fst (handleSubmit ex_env ex_form_negative ex_db_negative) \<noteq> Created \<and>
   utilities (snd (handleSubmit ex_env ex_form_negative ex_db_negative)) = utilities ex_db_negative"
proof -
  note th = creation_steps [of ex_env ex_form_negative ex_db_negative]
    creation_steps [of ex_env ex_form ex_db_empty "ex_db\<lparr>utilities := [ex_reading\<lparr>src_status := invoiced\<rparr>]\<rparr>"]
  have n: "fst (handleSubmit ex_env ex_form_negative ex_db_negative) \<noteq> Created"
    by (simp add: ex_submit_negative)
  have s: "map src_status (utilities ex_db_empty) = [saved]"
    by (simp add: ex_db_empty_def ex_reading_def)
  from th n s ex_submit ex_db_empty_constraints show ?thesis by blast
qed

text \<open>
  The submit with the negative reading: the invoice insert passes its checks (subtotal
  950), the item insert breaks \<open>CHECK (amount >= 0)\<close>, the user is told that the creation
  failed, and the invoice row stays behind without items. And the submit of the example
  when the request that updates the utilities fails: success is reported, the water item
  refers to reading 40, and reading 40 still reads saved.
\<close>

theorem creation_not_atomic_counterexample:
  "handleSubmit ex_env ex_form_negative ex_db_negative =
     (Failure_alert,
      ex_db_negative\<lparr>invoices := [ex_invoice\<lparr>subtotal := 950, tax_amount := 152, total_amount := 1102\<rparr>],
                     invoice_number_seq := 1\<rparr>) \<and>
   invoices ex_db_negative = [] \<and>
   invoice_items (ex_db_negative\<lparr>invoices := [ex_invoice\<lparr>subtotal := 950, tax_amount := 152, total_amount := 1102\<rparr>],
                     invoice_number_seq := 1\<rparr>) = [] \<and>
   handleSubmit (ex_env\<lparr>utilities_request_fails := True\<rparr>) ex_form ex_db_empty = (Created, ex_db) \<and>
   map reference_id (invoice_items ex_db) = [None, Some 40] \<and>
   map (\<lambda>u. (src_id u, src_status u)) (utilities ex_db) = [(40, saved)]"
  by (simp add: ex_submit_negative ex_submit_update_lost)
    (simp add: ex_db_negative_def ex_db_empty_def ex_db_def ex_rent_def ex_water_def ex_reading_def)

subsection \<open>C5\<close>

text \<open>
  C5. Under the default reading of names, \<open>void_invoice\<close> stops at its first statement
  with the ambiguity error: the two items of the invoice are still active and the invoice
  still a draft with its amounts. (\<open>void_invoice_use_column\<close> above is what the function
  does once the name is read as the column: the effect the specification describes.)
\<close>

theorem void_invoice_rejected:
  "void_invoice conflict_error 31 ex_db = Rollback (Ambiguous_column ''invoice_id'') ex_db \<and>
   map item_state (invoice_items ex_db) = [active, active] \<and>
   map inv_status (invoices ex_db) = [draft]"
  by (simp add: void_invoice_def ex_db_def ex_rent_def ex_water_def ex_invoice_def)

subsection \<open>C6\<close>

text \<open>
  C6, amended. No statement looks at whether an invoice is cancelled. Item statements never
  change the status or the tax_amount of any invoice, a cancelled one included (its
  subtotal and total_amount they do rewrite, from its active items). A payment recorded
  against a cancelled invoice changes its status: to paid when the confirmed payments reach
  its total_amount, to partially_paid otherwise.
\<close>

theorem cancelled_invoice_frame:
  "map inv_status (invoices (db_after (exec_item_event d e))) = map inv_status (invoices d) \<and>
   map tax_amount (invoices (db_after (exec_item_event d e))) = map tax_amount (invoices d) \<and>
   (insert_payment p d = Ok d' \<and> constraints_hold d \<longrightarrow>
     (\<forall>r\<in>set (invoices d). inv_status r = cancelled \<and> pay_invoice_id p = Some (inv_id r) \<longrightarrow>
        invoices d' =
          with_status (inv_id r)
            (if total_amount r \<le> total_paid d' (inv_id r) then paid else partially_paid)
            (invoices d)))"
proof -
  have pay: "invoices d' =
          with_status (inv_id r)
            (if total_amount r \<le> total_paid d' (inv_id r) then paid else partially_paid)
            (invoices d)"
    if ok: "insert_payment p d = Ok d'" and con: "constraints_hold d"
      and r: "r \<in> set (invoices d)" "pay_invoice_id p = Some (inv_id r)" for r
  proof -
    have ev: "exec_payment_event d (Insert_payment p) = Ok d'" "new_rows d (Insert_payment p) = [p]"
      using ok by simp_all
    from event_as_trigger[OF ev con] obtain d1 where
      d1: "d' = update_invoice_status p d1" "invoices d1 = invoices d"
        "p \<in> set (payments d1)" "list_all (\<lambda>p. 0 < pay_amount p) (payments d1)"
      by blast
    have dist: "distinct (map inv_id (invoices d1))"
      using con d1(2) by (simp add: constraints_hold_def)
    have tp: "total_paid d' i = total_paid d1 i" for i
      by (simp add: d1(1) total_paid_def)
    have pos: "0 < total_paid d1 (inv_id r)"
      unfolding total_paid_def using total_paid_pos[OF d1(4) d1(3) r(2)] .
    have "invoices d' =
       (if total_amount r \<le> total_paid d1 (inv_id r) then with_status (inv_id r) paid (invoices d1)
        else if 0 < total_paid d1 (inv_id r) then with_status (inv_id r) partially_paid (invoices d1)
        else invoices d1)"
      unfolding d1(1) using r d1(2) by (intro payment_trigger_effect[OF dist _ r(2)]) simp
    with pos show ?thesis by (simp add: tp d1(2))
  qed
  show ?thesis using item_event_frame(1,2)[of d e] pay by blast
qed

text \<open>
  A payment of 100 against the cancelled invoice of the example, whose total is 0.
\<close>

theorem cancelled_invoice_frame_witness:
  "constraints_hold ex_db_cancelled \<and>
   cancel ex_invoice \<in> set (invoices ex_db_cancelled) \<and> inv_status (cancel ex_invoice) = cancelled \<and>
   invoices (ex_db_cancelled\<lparr>invoices := [(cancel ex_invoice)\<lparr>inv_status := paid\<rparr>],
                         payments := [ex_payment 21 31 100]\<rparr>) =
     with_status 31 paid (invoices ex_db_cancelled)"
proof -
  let ?d' = "ex_db_cancelled\<lparr>invoices := [(cancel ex_invoice)\<lparr>inv_status := paid\<rparr>],
                         payments := [ex_payment 21 31 100]\<rparr>"
  have r: "cancel ex_invoice \<in> set (invoices ex_db_cancelled)"
    "inv_status (cancel ex_invoice) = cancelled" "inv_id (cancel ex_invoice) = 31"
    "total_amount (cancel ex_invoice) = 0"
    by (simp_all add: ex_db_cancelled_def cancel_def ex_invoice_def)
  have pid: "pay_invoice_id (ex_payment 21 31 100) = Some (inv_id (cancel ex_invoice))"
    by (simp add: ex_payment_def r)
  have tp: "total_paid ?d' 31 = 100" by (simp add: total_paid_def ex_payment_def)
  from cancelled_invoice_frame [of ex_db_cancelled "Set_status 10 active" "ex_payment 21 31 100" ?d']
    ex_cancelled_payment ex_cancelled_constraints
  have "\<forall>r\<in>set (invoices ex_db_cancelled).
        inv_status r = cancelled \<and> pay_invoice_id (ex_payment 21 31 100) = Some (inv_id r) \<longrightarrow>
        invoices ?d' =
          with_status (inv_id r)
            (if total_amount r \<le> total_paid ?d' (inv_id r) then paid else partially_paid)
            (invoices ex_db_cancelled)"
    by blast
  from bspec[OF this r(1)] r(2) pid have
    "invoices ?d' = with_status (inv_id (cancel ex_invoice))
            (if total_amount (cancel ex_invoice) \<le> total_paid ?d' (inv_id (cancel ex_invoice))
             then paid else partially_paid) (invoices ex_db_cancelled)"
    by blast
  then have "invoices ?d' = with_status 31 paid (invoices ex_db_cancelled)"
    by (simp add: r tp)
  with ex_cancelled_constraints r show ?thesis by blast
qed

text \<open>
  The cancelled invoice of the example: a payment of 100 against it is accepted and turns
  its status to paid; switching its rent item back to active leaves it cancelled with a
  subtotal and a total of 1000.
\<close>

theorem cancelled_invoice_counterexample:
  "map inv_status (invoices ex_db_cancelled) = [cancelled] \<and>
   succeeded (insert_payment (ex_payment 21 31 100) ex_db_cancelled) \<and>
   map inv_status (invoices (db_after (insert_payment (ex_payment 21 31 100) ex_db_cancelled))) = [paid] \<and>
   map (\<lambda>r. (inv_status r, subtotal r, tax_amount r, total_amount r))
     (invoices (db_after (exec_item_event ex_db_cancelled (Set_status 10 active)))) =
     [(cancelled, 1000, 0, 1000)]"
  unfolding ex_cancelled_payment succeeded_def db_after_def result.case
  by (simp add: ex_db_cancelled_def cancel_def ex_invoice_def ex_rent_def ex_water_def
      update_item_status_def fire_item_triggers_def update_invoice_totals_def update_invoices_def
      id_is_def row_invoice_id_def coalesce_def coalesce_value_def sql_sum_def active_amounts_def)

subsection \<open>C7\<close>

text \<open>
  C7, amended. When the only active item of an invoice is deleted, the subtotal of the
  invoice is exactly 0 and its total_amount is its tax_amount, which the deletion has not
  changed: the total is 0 exactly when the invoice carries no tax.
\<close>

theorem delete_last_active_item:
  assumes "it \<in> set (invoice_items d)" "item_id it = iid" "item_invoice_id it = Some i"
    and "item_state it = active"
    and "list_all (\<lambda>x. item_id x = iid \<or> item_invoice_id x \<noteq> Some i \<or> item_state x = void)
           (invoice_items d)"
  shows "list_all (\<lambda>r. inv_id r \<noteq> i \<or> (subtotal r = 0 \<and> total_amount r = tax_amount r))
           (invoices (delete_invoice_item iid d)) \<and>
         map tax_amount (invoices (delete_invoice_item iid d)) = map tax_amount (invoices d) \<and>
         map inv_id (invoices (delete_invoice_item iid d)) = map inv_id (invoices d)"
  using delete_last_active[OF assms(1,2,3,5)] delete_frame[of iid d]
  by (simp add: delete_invoice_item_def fire_frame)

text \<open>
  The invoice whose only item is the rent.
\<close>

theorem delete_last_active_item_witness:
  "ex_rent \<in> set (invoice_items ex_db_rent_only) \<and> item_state ex_rent = active \<and>
   list_all (\<lambda>r. inv_id r \<noteq> 31 \<or> (subtotal r = 0 \<and> total_amount r = tax_amount r))
     (invoices (delete_invoice_item 10 ex_db_rent_only))"
proof -
  have 1: "ex_rent \<in> set (invoice_items ex_db_rent_only)" "item_id ex_rent = 10"
    "item_invoice_id ex_rent = Some 31" "item_state ex_rent = active"
    by (simp_all add: ex_db_rent_only_def ex_rent_def)
  have 2: "list_all (\<lambda>x. item_id x = 10 \<or> item_invoice_id x \<noteq> Some 31 \<or> item_state x = void)
           (invoice_items ex_db_rent_only)"
    by (simp add: ex_db_rent_only_def ex_rent_def)
  from delete_last_active_item [OF 1 2] 1 show ?thesis by blast
qed

text \<open>
  That invoice carries a tax of 160: after the rent is deleted its subtotal is 0 and its
  total_amount is 160.
\<close>

theorem delete_last_active_item_total_counterexample:
  "invoice_items ex_db_rent_only = [ex_rent] \<and> item_state ex_rent = active \<and>
   item_invoice_id ex_rent = Some 31 \<and>
   map (\<lambda>r. (inv_id r, subtotal r, tax_amount r, total_amount r))
     (invoices (delete_invoice_item 10 ex_db_rent_only)) = [(31, 0, 160, 160)]"
  by (simp add: ex_delete_rent) (simp add: ex_db_rent_only_def ex_rent_def ex_invoice_def)

subsection \<open>C8\<close>

text \<open>
  C8. On one day the sequence values 1000 and 10000 give the same invoice number: \<open>lpad\<close>
  cuts the five digits of 10000 down to their first four. The insert of the second invoice
  then breaks the UNIQUE constraint and is rolled back, the sequence value spent.
  (Below 10000 the numbers of one day are pairwise different, \<open>lpad_inj_below_10000\<close>, and
  the stored numbers always are, \<open>insert_invoice_numbers_distinct\<close>.)
\<close>

theorem invoice_number_reused:
  "fst (generate_invoice_number ''20250223'' (ex_db_empty\<lparr>invoice_number_seq := 999\<rparr>)) =
     Inr ''INV-20250223-1000'' \<and>
   fst (generate_invoice_number ''20250223'' (ex_db_empty\<lparr>invoice_number_seq := 9999\<rparr>)) =
     Inr ''INV-20250223-1000'' \<and>
   insert_invoice ''20250223'' (ex_invoice\<lparr>inv_id := 33, invoice_number := None\<rparr>) ex_db_9999 =
     Rollback (Unique_violation ''invoices_invoice_number_key'')
       (ex_db_9999\<lparr>invoice_number_seq := 10000\<rparr>)"
  by (simp add: generate_invoice_number_def nextval_def ex_db_empty_def lpad_def show_nat_1000
      show_nat_10000 insert_invoice_def set_invoice_number_def ex_db_9999_def ex_invoice_def)

subsection \<open>C9\<close>

text \<open>
  C9. Voiding the whole invoice of the example, under the default reading of names, leaves
  its tax_amount at 184: the function stops with the ambiguity error of C5. Voiding its
  water item alone takes the subtotal from 1150 to 1000 and the total to 1184, the tax
  staying 184 (in general: \<open>void_item_keeps_tax\<close> and \<open>void_item_effect\<close> above).
\<close>

theorem void_invoice_leaves_tax:
  "map tax_amount (invoices (db_after (void_invoice conflict_error 31 ex_db))) = [184] \<and>
   map (\<lambda>r. (subtotal r, tax_amount r, total_amount r)) (invoices ex_db) = [(1150, 184, 1334)] \<and>
   map (\<lambda>r. (subtotal r, tax_amount r, total_amount r)) (invoices (void_invoice_item 11 ex_db)) =
     [(1000, 184, 1184)]"
  by (simp add: void_invoice_def db_after_def ex_db_def ex_rent_def ex_water_def ex_invoice_def
      void_invoice_item_def update_item_status_def fire_item_triggers_def update_invoice_totals_def
      update_invoices_def id_is_def row_invoice_id_def coalesce_def coalesce_value_def sql_sum_def
      active_amounts_def)

subsection \<open>C10\<close>



end
